theory Spec2Isabelle
  imports Complex_Main "HOL-Library.Word"
begin

section \<open>PCM encoder and text encoding (services/audioUtils)\<close>

text \<open>
  The component \<^verbatim>\<open>LiveAssistant.tsx\<close> imports four helpers from
  \<^verbatim>\<open>services/audioUtils\<close>. That module is exercised by the repository's test-suite
  (\<^verbatim>\<open>describe('audioUtils', ...)\<close>) but the module itself is not among the sources, so
  its two pure helpers are modelled from the specification and checked against the
  test vectors of the suite.

  Samples are real numbers: every finite \<^verbatim>\<open>Float32Array\<close> element is a rational, and the
  product of a 24-bit significand with a 15- or 16-bit scale factor is exact in double
  precision, so no rounding takes place before the store into the \<^verbatim>\<open>Int16Array\<close>.
  Bytes are \<open>8 word\<close>, PCM samples are \<open>16 word\<close> read with \<open>sint\<close>.
\<close>

type_synonym u8 = "8 word"
type_synonym i16 = "16 word"

text \<open>
  Modelled from the spec: \<^verbatim>\<open>float32ToPCM16\<close> (the spec's \<^verbatim>\<open>floatToInt16Pcm\<close>) of the
  absent module \<^verbatim>\<open>services/audioUtils\<close>. Each sample is clamped to \<open>[-1, 1]\<close>, then
  scaled with the asymmetric bound: \<open>0x8000\<close> on the negative side, \<open>0x7FFF\<close> otherwise.
  The store into a 16-bit integer array drops the fractional part (towards zero).
\<close>

definition clampSample :: "real \<Rightarrow> real" where
  "clampSample s = max (- 1) (min 1 s)"

definition scaleSample :: "real \<Rightarrow> real" where
  "scaleSample c = (if c < 0 then c * 32768 else c * 32767)"

definition truncTowardZero :: "real \<Rightarrow> int" where
  "truncTowardZero x = (if x < 0 then \<lceil>x\<rceil> else \<lfloor>x\<rfloor>)"

definition sampleToInt16 :: "real \<Rightarrow> i16" where
  "sampleToInt16 s = word_of_int (truncTowardZero (scaleSample (clampSample s)))"

definition float32ToPCM16 :: "real list \<Rightarrow> i16 list" where
  "float32ToPCM16 float32 = map sampleToInt16 float32"

text \<open>
  \<^verbatim>\<open>pcm16.buffer\<close>: the bytes underlying the \<^verbatim>\<open>Int16Array\<close>, least significant byte
  first (the wire format is PCM16LE).
\<close>

definition int16Bytes :: "i16 \<Rightarrow> u8 list" where
  "int16Bytes w = [ucast w, ucast (drop_bit 8 w)]"

definition bufferOf :: "i16 list \<Rightarrow> u8 list" where
  "bufferOf pcm16 = concat (map int16Bytes pcm16)"

text \<open>
  Modelled from the spec: \<^verbatim>\<open>arrayBufferToBase64\<close> (the spec's \<^verbatim>\<open>bytesToPortableText\<close>)
  and \<^verbatim>\<open>base64ToUint8Array\<close> (the spec's \<^verbatim>\<open>textToBytes\<close>) of the absent module
  \<^verbatim>\<open>services/audioUtils\<close>: standard base64 with the alphabet \<open>A-Z a-z 0-9 + /\<close> and
  \<open>=\<close> padding. Three bytes become four sextets; one or two trailing bytes are padded.
  Decoding a text that is not base64 raises in the source (the \<open>None\<close> result here).
\<close>

definition base64Alphabet :: string where
  "base64Alphabet = ''ABCDEFGHIJKLMNOPQRSTUVWXYZabcdefghijklmnopqrstuvwxyz0123456789+/''"

definition encodeSextet :: "nat \<Rightarrow> char" where
  "encodeSextet n = base64Alphabet ! n"

fun indexOf :: "char \<Rightarrow> string \<Rightarrow> nat \<Rightarrow> nat option" where
  "indexOf c [] i = None"
| "indexOf c (x # xs) i = (if c = x then Some i else indexOf c xs (Suc i))"

definition decodeSextet :: "char \<Rightarrow> nat option" where
  "decodeSextet c = indexOf c base64Alphabet 0"

text \<open>The four sextets of a group of three bytes, and the three bytes of four sextets.\<close>

definition sextet1 :: "u8 \<Rightarrow> nat" where
  "sextet1 a = unat a div 4"

definition sextet2 :: "u8 \<Rightarrow> u8 \<Rightarrow> nat" where
  "sextet2 a b = unat a mod 4 * 16 + unat b div 16"

definition sextet3 :: "u8 \<Rightarrow> u8 \<Rightarrow> nat" where
  "sextet3 b c = unat b mod 16 * 4 + unat c div 64"

definition sextet4 :: "u8 \<Rightarrow> nat" where
  "sextet4 c = unat c mod 64"

definition byte1 :: "nat \<Rightarrow> nat \<Rightarrow> u8" where
  "byte1 s1 s2 = of_nat (s1 * 4 + s2 div 16)"

definition byte2 :: "nat \<Rightarrow> nat \<Rightarrow> u8" where
  "byte2 s2 s3 = of_nat (s2 mod 16 * 16 + s3 div 4)"

definition byte3 :: "nat \<Rightarrow> nat \<Rightarrow> u8" where
  "byte3 s3 s4 = of_nat (s3 mod 4 * 64 + s4)"

fun arrayBufferToBase64 :: "u8 list \<Rightarrow> string" where
  "arrayBufferToBase64 [] = []"
| "arrayBufferToBase64 [a] =
     [encodeSextet (sextet1 a), encodeSextet (sextet2 a 0), CHR ''='', CHR ''='']"
| "arrayBufferToBase64 [a, b] =
     [encodeSextet (sextet1 a), encodeSextet (sextet2 a b), encodeSextet (sextet3 b 0),
      CHR ''='']"
| "arrayBufferToBase64 (a # b # c # rest) =
     [encodeSextet (sextet1 a), encodeSextet (sextet2 a b), encodeSextet (sextet3 b c),
      encodeSextet (sextet4 c)]
     @ arrayBufferToBase64 rest"

fun base64ToUint8Array :: "string \<Rightarrow> u8 list option" where
  "base64ToUint8Array [] = Some []"
| "base64ToUint8Array (c1 # c2 # c3 # c4 # rest) =
     (case (decodeSextet c1, decodeSextet c2) of
        (Some s1, Some s2) \<Rightarrow>
          if c3 = CHR ''='' then
            (if c4 = CHR ''='' \<and> rest = [] then Some [byte1 s1 s2] else None)
          else
            (case decodeSextet c3 of
               None \<Rightarrow> None
             | Some s3 \<Rightarrow>
                 if c4 = CHR ''='' then
                   (if rest = [] then Some [byte1 s1 s2, byte2 s2 s3] else None)
                 else
                   (case decodeSextet c4 of
                      None \<Rightarrow> None
                    | Some s4 \<Rightarrow>
                        (case base64ToUint8Array rest of
                           None \<Rightarrow> None
                         | Some bytes \<Rightarrow>
                             Some (byte1 s1 s2 # byte2 s2 s3 # byte3 s3 s4 # bytes))))
      | _ \<Rightarrow> None)"
| "base64ToUint8Array _ = None"


section \<open>The live assistant (components/LiveAssistant.tsx)\<close>

text \<open>
  The component keeps three pieces of React state (\<^verbatim>\<open>isConnected\<close>, \<^verbatim>\<open>isMuted\<close>,
  \<^verbatim>\<open>logs\<close>) and eight refs. Its handlers run one at a time on the event loop, so each
  handler is a function from the state before it to the state after it. The browser and
  the remote endpoint are part of the state as well: which microphone streams have live
  tracks, which audio contexts are open, which session promises are still pending and
  which sessions are open, which \<^verbatim>\<open>close\<close> callbacks wait on a session promise, which
  script processors are wired up and receive frames, which buffer sources are started and
  have neither ended nor been stopped, which \<^verbatim>\<open>onmessage\<close> handlers are suspended on
  decoding, and the chronological list of calls the component made on them. Objects
  handed out by the browser are named by numbers drawn from a counter. Clock readings
  and durations are real numbers.
\<close>

datatype effect =
    Alert string
  | ConsoleError
  | NewAudioContext nat nat
  | GetUserMedia nat
  | GetUserMediaRejected
  | LiveConnect nat
  | CreateMediaStreamSource nat nat nat
  | CreateScriptProcessor nat nat
  | NodeConnect nat nat
  | ConnectDestination nat
  | TrackStop nat
  | NodeDisconnect nat
  | ContextClose nat
  | SessionClose nat
  | SendRealtimeInput nat string
  | CreateBufferSource nat nat
  | BufferStart nat real
  | BufferStop nat

datatype js_error = InvalidStateError

text \<open>
  The callbacks passed to \<^verbatim>\<open>ai.live.connect\<close> are closures created inside one call of
  \<^verbatim>\<open>connect\<close>. They see the \<^verbatim>\<open>stream\<close> constant of that call and the \<^verbatim>\<open>isMuted\<close>
  constant of the render whose \<^verbatim>\<open>connect\<close> was invoked: \<^verbatim>\<open>isMuted\<close> is a \<^verbatim>\<open>useState\<close>
  value, not a ref, so the closure holds the value it had then. The record of a session
  carries both, and the script processor carries what its \<^verbatim>\<open>onaudioprocess\<close> closure sees.
\<close>

record live_session =
  sess_id :: nat
  sess_stream :: nat
  sess_isMuted :: bool

record script_processor =
  proc_id :: nat
  proc_isMuted :: bool
  proc_session :: nat

record buffer_source =
  src_id :: nat
  src_start :: real
  src_duration :: real

record server_msg =
  msg_audio :: "string option"
  msg_interrupted :: bool

record app =
  isConnected :: bool
  isMuted :: bool
  logs :: "string list"
  inputContextRef :: "nat option"
  outputContextRef :: "nat option"
  streamRef :: "nat option"
  processorRef :: "script_processor option"
  sourceRef :: "nat option"
  nextStartTimeRef :: real
  scheduledSourcesRef :: "buffer_source list"
  sessionRef :: "live_session option"
  fresh :: nat
  micLive :: "nat list"
  ctxOpen :: "nat list"
  sessPending :: "nat list"
  sessOpen :: "nat list"
  closeQueued :: "nat list"
  capturing :: "script_processor list"
  playing :: "buffer_source list"
  decoding :: "(server_msg \<times> nat) list"
  effects :: "effect list"

definition initial_app :: app where
  "initial_app =
     \<lparr>isConnected = False, isMuted = False, logs = [],
      inputContextRef = None, outputContextRef = None, streamRef = None,
      processorRef = None, sourceRef = None,
      nextStartTimeRef = 0, scheduledSourcesRef = [], sessionRef = None,
      fresh = 0, micLive = [], ctxOpen = [], sessPending = [], sessOpen = [],
      closeQueued = [], capturing = [], playing = [], decoding = [],
      effects = []\<rparr>"

definition emit :: "effect \<Rightarrow> app \<Rightarrow> app" where
  "emit e s = s\<lparr>effects := effects s @ [e]\<rparr>"

text \<open>\<^verbatim>\<open>addLog\<close>: \<^verbatim>\<open>setLogs(prev => [msg, ...prev].slice(0, 5))\<close>.\<close>

definition addLog :: "string \<Rightarrow> app \<Rightarrow> app" where
  "addLog msg s = s\<lparr>logs := take 5 (msg # logs s)\<rparr>"

subsection \<open>connect\<close>

text \<open>
  What the surroundings answer during one call of \<^verbatim>\<open>connect\<close>: whether
  \<^verbatim>\<open>process.env.API_KEY\<close> is set and whether \<^verbatim>\<open>getUserMedia\<close> resolves or rejects. The
  call is taken as one step. \<^verbatim>\<open>ai.live.connect\<close> is not awaited: it hands back a promise
  at once, which is stored in \<^verbatim>\<open>sessionRef\<close> while still pending, so the \<^verbatim>\<open>catch\<close> block
  is reached only when \<^verbatim>\<open>getUserMedia\<close> rejects, and it logs and does nothing else. A
  connection that cannot be established shows later, through \<^verbatim>\<open>onerror\<close> or
  \<^verbatim>\<open>onclose\<close>, and its promise never resolves.
\<close>

record connect_env =
  apiKeyPresent :: bool
  micGranted :: bool

definition connectFailed :: "app \<Rightarrow> app" where
  "connectFailed s = addLog ''Connection failed'' (emit ConsoleError s)"

definition connect :: "connect_env \<Rightarrow> app \<Rightarrow> app" where
  "connect env s =
     (if \<not> apiKeyPresent env then emit (Alert ''API Key missing'') s
      else
        let ic = fresh s; oc = fresh s + 1;
            s1 = s\<lparr>inputContextRef := Some ic, outputContextRef := Some oc,
                   ctxOpen := ctxOpen s @ [ic, oc], fresh := fresh s + 2,
                   effects := effects s @ [NewAudioContext ic 16000, NewAudioContext oc 24000]\<rparr>
        in
          if \<not> micGranted env then connectFailed (emit GetUserMediaRejected s1)
          else
            let stream = fresh s1;
                s2 = s1\<lparr>streamRef := Some stream, micLive := micLive s1 @ [stream],
                        fresh := fresh s1 + 1,
                        effects := effects s1 @ [GetUserMedia stream]\<rparr>;
                s3 = addLog ''Connecting to Live API...'' s2;
                session = \<lparr>sess_id = fresh s3, sess_stream = stream, sess_isMuted = isMuted s\<rparr>
            in s3\<lparr>sessionRef := Some session,
                  sessPending := sessPending s3 @ [sess_id session],
                  fresh := fresh s3 + 1,
                  effects := effects s3 @ [LiveConnect (sess_id session)]\<rparr>)"

text \<open>The session promise resolves: the session exists and is open.\<close>

definition sessionResolved :: "nat \<Rightarrow> app \<Rightarrow> app" where
  "sessionResolved i s =
     (if i \<in> set (sessPending s)
      then s\<lparr>sessPending := removeAll i (sessPending s), sessOpen := sessOpen s @ [i]\<rparr>
      else s)"

subsection \<open>The session callbacks: onopen and the capture callback\<close>

definition onopen :: "live_session \<Rightarrow> app \<Rightarrow> app" where
  "onopen session s =
     (let s1 = (addLog ''Session Open'' s)\<lparr>isConnected := True\<rparr>
      in case inputContextRef s1 of
           None \<Rightarrow> s1
         | Some ic \<Rightarrow>
             let source = fresh s1; processor = fresh s1 + 1
             in s1\<lparr>sourceRef := Some source,
                   processorRef := Some \<lparr>proc_id = processor,
                                         proc_isMuted = sess_isMuted session,
                                         proc_session = sess_id session\<rparr>,
                   capturing := capturing s1 @
                     [\<lparr>proc_id = processor, proc_isMuted = sess_isMuted session,
                       proc_session = sess_id session\<rparr>],
                   fresh := fresh s1 + 2,
                   effects := effects s1 @
                     [CreateMediaStreamSource source ic (sess_stream session),
                      CreateScriptProcessor processor ic,
                      NodeConnect source processor, ConnectDestination processor]\<rparr>)"

text \<open>
  The frame is handed to the session promise (\<^verbatim>\<open>sessionPromise.then(...)\<close>); the call
  recorded here is that hand-over.
\<close>

definition onaudioprocess :: "script_processor \<Rightarrow> real list \<Rightarrow> app \<Rightarrow> app" where
  "onaudioprocess processor inputData s =
     (if proc_isMuted processor then s
      else
        let pcm16 = float32ToPCM16 inputData;
            base64Data = arrayBufferToBase64 (bufferOf pcm16)
        in emit (SendRealtimeInput (proc_session processor) base64Data) s)"

text \<open>The mute button: \<^verbatim>\<open>onClick={() => setIsMuted(!isMuted)}\<close>, from the current render.\<close>

definition toggleMute :: "app \<Rightarrow> app" where
  "toggleMute s = s\<lparr>isMuted := \<not> isMuted s\<rparr>"

text \<open>A captured frame goes to the callback of every script processor that is wired up.\<close>

definition captureFrame :: "real list \<Rightarrow> app \<Rightarrow> app" where
  "captureFrame inputData s = fold (\<lambda>p. onaudioprocess p inputData) (capturing s) s"

text \<open>The frames handed to the Transport, oldest first.\<close>

fun sentFrames :: "effect list \<Rightarrow> string list" where
  "sentFrames [] = []"
| "sentFrames (SendRealtimeInput session d # es) = d # sentFrames es"
| "sentFrames (e # es) = sentFrames es"

subsection \<open>The session callbacks: onmessage\<close>

text \<open>
  Lines 100 to 112: a buffer source is created on the output context, started at the
  cursor (moved up to the clock when it is behind) and the cursor advances by the
  duration of the buffer. \<open>currentTime\<close> is the reading of \<^verbatim>\<open>ctx.currentTime\<close>.
\<close>

definition scheduleBuffer :: "nat \<Rightarrow> real \<Rightarrow> real \<Rightarrow> app \<Rightarrow> app" where
  "scheduleBuffer ctx duration currentTime s =
     (let s1 = (if nextStartTimeRef s < currentTime
                then s\<lparr>nextStartTimeRef := currentTime\<rparr> else s);
          source = \<lparr>src_id = fresh s1, src_start = nextStartTimeRef s1,
                    src_duration = duration\<rparr>
      in s1\<lparr>fresh := fresh s1 + 1,
            nextStartTimeRef := nextStartTimeRef s1 + duration,
            scheduledSourcesRef := scheduledSourcesRef s1 @ [source],
            playing := playing s1 @ [source],
            effects := effects s1 @
              [CreateBufferSource (src_id source) ctx, ConnectDestination (src_id source),
               BufferStart (src_id source) (src_start source)]\<rparr>)"

text \<open>
  \<^verbatim>\<open>s.stop()\<close> on a source that is no longer started raises; the \<^verbatim>\<open>try\<close>/\<^verbatim>\<open>catch\<close>
  around it swallows the error.
\<close>

definition stopSource :: "buffer_source \<Rightarrow> app \<Rightarrow> js_error + app" where
  "stopSource b s =
     (if b \<in> set (playing s)
      then Inr (s\<lparr>playing := removeAll b (playing s),
                  effects := effects s @ [BufferStop (src_id b)]\<rparr>)
      else Inl InvalidStateError)"

definition tryStop :: "buffer_source \<Rightarrow> app \<Rightarrow> app" where
  "tryStop b s = (case stopSource b s of Inl e \<Rightarrow> s | Inr s' \<Rightarrow> s')"

text \<open>Lines 116 to 123.\<close>

definition handleInterrupted :: "server_msg \<Rightarrow> app \<Rightarrow> app" where
  "handleInterrupted msg s =
     (if msg_interrupted msg then
        let s1 = addLog ''Interrupted'' s;
            s2 = fold tryStop (scheduledSourcesRef s1) s1
        in s2\<lparr>scheduledSourcesRef := [], nextStartTimeRef := 0\<rparr>
      else s)"

text \<open>
  \<^verbatim>\<open>onmessage\<close> is an async function with one \<^verbatim>\<open>await\<close>. \<open>onmessage_begin\<close> is the part
  before it: when the message carries audio (a non-empty string) and the output context
  exists, the text is turned into bytes (a text that is not base64 raises and ends the
  handler) and the handler suspends with the message and the context it read; otherwise
  it goes straight to the interruption check. \<open>onmessage_resume\<close> is the part after it:
  \<open>decoded\<close> is the duration of the buffer \<^verbatim>\<open>decodeAudioData\<close> produced, or \<open>None\<close>
  when decoding raised, in which case the rest of the handler does not run.
\<close>

definition onmessage_begin :: "server_msg \<Rightarrow> app \<Rightarrow> app" where
  "onmessage_begin msg s =
     (case (msg_audio msg, outputContextRef s) of
        (Some base64Audio, Some ctx) \<Rightarrow>
          if base64Audio = [] then handleInterrupted msg s
          else
            (case base64ToUint8Array base64Audio of
               None \<Rightarrow> s
             | Some bytes \<Rightarrow> s\<lparr>decoding := decoding s @ [(msg, ctx)]\<rparr>)
      | _ \<Rightarrow> handleInterrupted msg s)"

definition onmessage_resume :: "server_msg \<Rightarrow> nat \<Rightarrow> real option \<Rightarrow> real \<Rightarrow> app \<Rightarrow> app" where
  "onmessage_resume msg ctx decoded currentTime s =
     (case decoded of
        None \<Rightarrow> s
      | Some duration \<Rightarrow> handleInterrupted msg (scheduleBuffer ctx duration currentTime s))"

text \<open>The handler run from start to end with nothing in between.\<close>

definition onmessage :: "server_msg \<Rightarrow> real option \<Rightarrow> real \<Rightarrow> app \<Rightarrow> app" where
  "onmessage msg decoded currentTime s =
     (case (msg_audio msg, outputContextRef s) of
        (Some base64Audio, Some ctx) \<Rightarrow>
          if base64Audio = [] then handleInterrupted msg s
          else
            (case base64ToUint8Array base64Audio of
               None \<Rightarrow> s
             | Some bytes \<Rightarrow> onmessage_resume msg ctx decoded currentTime s)
      | _ \<Rightarrow> handleInterrupted msg s)"

text \<open>Chunks handed to the scheduler one after the other: clock reading and duration.\<close>

definition play :: "nat \<Rightarrow> (real \<times> real) list \<Rightarrow> app \<Rightarrow> app" where
  "play ctx chunks s = fold (\<lambda>(currentTime, duration). scheduleBuffer ctx duration currentTime) chunks s"

text \<open>
  Events of the playback side as the event loop delivers them: a message arrives, a
  suspended handler resumes (the decoding at that position of the pending list is done),
  a started source plays to its end.
\<close>

datatype playback_event =
    Message server_msg
  | DecodeDone nat "real option" real
  | SourceEnded buffer_source

fun playback_step :: "playback_event \<Rightarrow> app \<Rightarrow> app" where
  "playback_step (Message msg) s = onmessage_begin msg s"
| "playback_step (DecodeDone k decoded currentTime) s =
     (if k < length (decoding s) then
        (case decoding s ! k of
           (msg, ctx) \<Rightarrow>
             onmessage_resume msg ctx decoded currentTime
               (s\<lparr>decoding := take k (decoding s) @ drop (Suc k) (decoding s)\<rparr>))
      else s)"
| "playback_step (SourceEnded b) s = s\<lparr>playing := removeAll b (playing s)\<rparr>"

definition run :: "playback_event list \<Rightarrow> app \<Rightarrow> app" where
  "run events s = fold playback_step events s"

subsection \<open>disconnect, onclose, onerror\<close>

text \<open>
  Every call in \<^verbatim>\<open>disconnect\<close> goes through \<^verbatim>\<open>?.\<close>, so a ref that is still \<^verbatim>\<open>null\<close> is
  skipped. The refs are not reset, so a second call repeats each call on the same object:
  stopping a stopped track and disconnecting a disconnected node do nothing, and closing a
  closed context is answered on a promise that nobody awaits.

  The session is not closed inside the call. Line 157 is
  \<^verbatim>\<open>sessionRef.current?.then((s: any) => s.close())\<close>: it leaves a callback on the session
  promise. \<open>microtasks\<close> is what the event loop does when the running handler has
  returned: the callbacks whose promise has resolved run, in the order they were left,
  and each calls \<^verbatim>\<open>close\<close> on its session; the callbacks on a promise that is still
  pending stay where they are.
\<close>

definition stopTracks :: "nat \<Rightarrow> app \<Rightarrow> app" where
  "stopTracks stream s = s\<lparr>micLive := removeAll stream (micLive s),
                            effects := effects s @ [TrackStop stream]\<rparr>"

definition disconnectNode :: "nat \<Rightarrow> app \<Rightarrow> app" where
  "disconnectNode node s = emit (NodeDisconnect node) s"

definition disconnectProcessor :: "script_processor \<Rightarrow> app \<Rightarrow> app" where
  "disconnectProcessor p s =
     (disconnectNode (proc_id p) s)\<lparr>capturing := removeAll p (capturing s)\<rparr>"

definition closeContext :: "nat \<Rightarrow> app \<Rightarrow> app" where
  "closeContext ctx s = s\<lparr>ctxOpen := removeAll ctx (ctxOpen s),
                           effects := effects s @ [ContextClose ctx]\<rparr>"

definition thenClose :: "live_session \<Rightarrow> app \<Rightarrow> app" where
  "thenClose session s = s\<lparr>closeQueued := closeQueued s @ [sess_id session]\<rparr>"

definition closeSession :: "nat \<Rightarrow> app \<Rightarrow> app" where
  "closeSession i s = s\<lparr>sessOpen := removeAll i (sessOpen s),
                         effects := effects s @ [SessionClose i]\<rparr>"

definition microtasks :: "app \<Rightarrow> app" where
  "microtasks s =
     (let ready = filter (\<lambda>i. i \<notin> set (sessPending s)) (closeQueued s);
          waiting = filter (\<lambda>i. i \<in> set (sessPending s)) (closeQueued s)
      in (fold closeSession ready s)\<lparr>closeQueued := waiting\<rparr>)"

definition whenSet :: "'a option \<Rightarrow> ('a \<Rightarrow> app \<Rightarrow> app) \<Rightarrow> app \<Rightarrow> app" where
  "whenSet ref f s = (case ref of None \<Rightarrow> s | Some x \<Rightarrow> f x s)"

definition disconnect :: "app \<Rightarrow> app" where
  "disconnect s =
     (let s1 = whenSet (streamRef s) stopTracks s;
          s2 = whenSet (sourceRef s1) disconnectNode s1;
          s3 = whenSet (processorRef s2) disconnectProcessor s2;
          s4 = whenSet (inputContextRef s3) closeContext s3;
          s5 = whenSet (outputContextRef s4) closeContext s4;
          s6 = whenSet (sessionRef s5) thenClose s5
      in s6\<lparr>isConnected := False, isMuted := False, logs := []\<rparr>)"

definition onclose :: "app \<Rightarrow> app" where
  "onclose s = disconnect (addLog ''Session Closed'' s)"

definition onerror :: "app \<Rightarrow> app" where
  "onerror s = disconnect (addLog ''Error occurred'' (emit ConsoleError s))"

text \<open>
  What the session and the microphone deliver, one handler per turn of the event loop,
  each followed by the waiting callbacks: the session opens, its promise resolves, it
  reports an error, it closes, a frame is captured.
\<close>

datatype session_event =
    Opened live_session
  | Resolved nat
  | Errored
  | Closed
  | Frame "real list"

fun session_handler :: "session_event \<Rightarrow> app \<Rightarrow> app" where
  "session_handler (Opened session) s = onopen session s"
| "session_handler (Resolved i) s = sessionResolved i s"
| "session_handler Errored s = onerror s"
| "session_handler Closed s = onclose s"
| "session_handler (Frame inputData) s = captureFrame inputData s"


definition session_run :: "session_event list \<Rightarrow> app \<Rightarrow> app" where
  "session_run events s = fold (\<lambda>e st. microtasks (session_handler e st)) events s"


subsection \<open>A first session\<close>

text \<open>
  The states a first visit goes through: the page as loaded, the state after a
  \<^verbatim>\<open>connect\<close> in which the key is set and the microphone is granted, and the state after
  the \<^verbatim>\<open>onopen\<close> callback of that session has run and its promise has resolved. The last
  one is a visitor who pressed the connect button twice before the first session opened:
  two calls of \<^verbatim>\<open>connect\<close>, both promises resolved, the second session opened and one
  chunk of one second scheduled at clock reading \<open>0\<close>.
\<close>

definition okEnv :: connect_env where
  "okEnv = \<lparr>apiKeyPresent = True, micGranted = True\<rparr>"

definition firstSession :: live_session where
  "firstSession = \<lparr>sess_id = 3, sess_stream = 2, sess_isMuted = False\<rparr>"

definition connecting_app :: app where
  "connecting_app = connect okEnv initial_app"

definition connected_app :: app where
  "connected_app = sessionResolved 3 (onopen firstSession connecting_app)"

definition secondSession :: live_session where
  "secondSession = \<lparr>sess_id = 7, sess_stream = 6, sess_isMuted = False\<rparr>"

definition overlapping_app :: app where
  "overlapping_app =
     scheduleBuffer 5 1 0
       (onopen secondSession
         (sessionResolved 7 (sessionResolved 3 (connect okEnv connecting_app))))"


subsection \<open>A first conversation\<close>

text \<open>
  The first session after two chunks of one and two seconds have been scheduled at clock
  readings \<open>0\<close> and \<open>1/2\<close>; a message that carries audio; a message that carries
  nothing but the interruption flag.
\<close>

definition talking_app :: app where
  "talking_app = play 1 [(0, 1), (1 / 2, 2)] connected_app"

definition audioChunk :: server_msg where
  "audioChunk = \<lparr>msg_audio = Some ''AAAA'', msg_interrupted = False\<rparr>"

definition interruption :: server_msg where
  "interruption = \<lparr>msg_audio = None, msg_interrupted = True\<rparr>"

text \<open>
  A later state of the playback side only adds to an earlier one: the counter does not go
  back, a source that is started or in the set later was so before or has a number the
  counter had not reached, and the list of calls only grows at its end.
\<close>

definition onlyAdds :: "app \<Rightarrow> app \<Rightarrow> bool" where
  "onlyAdds s s' \<longleftrightarrow>
     fresh s \<le> fresh s'
     \<and> (\<forall>b\<in>set (playing s'). b \<in> set (playing s) \<or> fresh s \<le> src_id b)
     \<and> (\<forall>b\<in>set (scheduledSourcesRef s').
           b \<in> set (scheduledSourcesRef s) \<or> fresh s \<le> src_id b)
     \<and> take (length (effects s)) (effects s') = effects s"




section \<open>Properties of the PCM encoder\<close>

lemma clampSample_range: "- 1 \<le> clampSample s \<and> clampSample s \<le> 1"
  by (simp add: clampSample_def)

lemma truncate_scale_range:
  "- 32768 \<le> truncTowardZero (scaleSample (clampSample s))
   \<and> truncTowardZero (scaleSample (clampSample s)) \<le> 32767"
proof -
  define c where "c = clampSample s"
  have c: "- 1 \<le> c" "c \<le> 1"
    using clampSample_range [of s] by (simp_all add: c_def)
  show ?thesis
  proof (cases "c < 0")
    case True
    then have neg: "c * 32768 < 0" by simp
    have "- 32768 \<le> \<lceil>c * 32768\<rceil>"
      using c(1) by (simp add: le_ceiling_iff)
    moreover have "\<lceil>c * 32768\<rceil> \<le> 32767"
      using neg by (simp add: ceiling_le_iff)
    ultimately show ?thesis
      using True neg by (simp add: truncTowardZero_def scaleSample_def c_def [symmetric])
  next
    case False
    then have pos: "\<not> c * 32767 < 0" by simp
    have "\<lfloor>c * 32767\<rfloor> \<le> 32767"
      using c(2) by (simp add: floor_le_iff)
    moreover have "- 32768 \<le> \<lfloor>c * 32767\<rfloor>"
      using pos by (simp add: le_floor_iff)
    ultimately show ?thesis
      using False pos by (simp add: truncTowardZero_def scaleSample_def c_def [symmetric])
  qed
qed

lemma sint_sampleToInt16:
  "sint (sampleToInt16 s) = truncTowardZero (scaleSample (clampSample s))"
  using truncate_scale_range [of s]
  by (simp add: sampleToInt16_def sint_sbintrunc' signed_take_bit_int_eq_self)

lemma sampleToInt16_high: "1 \<le> s \<Longrightarrow> sampleToInt16 s = 32767"
  by (simp add: sampleToInt16_def truncTowardZero_def scaleSample_def clampSample_def)

lemma sampleToInt16_low: "s \<le> - 1 \<Longrightarrow> sampleToInt16 s = - 32768"
  by (simp add: sampleToInt16_def truncTowardZero_def scaleSample_def clampSample_def
      max_def min_def)

lemma sampleToInt16_zero: "sampleToInt16 0 = 0"
  by (simp add: sampleToInt16_def truncTowardZero_def scaleSample_def clampSample_def)

text \<open>The vectors of the test-suite: \<^verbatim>\<open>[1.0]\<close>, \<^verbatim>\<open>[-1.0]\<close>, \<^verbatim>\<open>[0]\<close>, \<^verbatim>\<open>[2.0, -2.0]\<close>.\<close>

lemma float32ToPCM16_test_vectors:
  "map sint (float32ToPCM16 [1]) = [32767]"
  "map sint (float32ToPCM16 [- 1]) = [- 32768]"
  "map sint (float32ToPCM16 [0]) = [0]"
  "map sint (float32ToPCM16 [2, - 2]) = [32767, - 32768]"
  by (simp_all add: float32ToPCM16_def sampleToInt16_high sampleToInt16_low sampleToInt16_zero)

text \<open>
  Claim C3. \<^verbatim>\<open>float32ToPCM16\<close> keeps the length of its input; every output sample is
  the clamped and scaled input sample, read back as a signed 16-bit value without
  wrap-around, and so lies between \<open>-32768\<close> and \<open>32767\<close>; a sample of at least \<open>1\<close> gives
  \<open>32767\<close>, a sample of at most \<open>-1\<close> gives \<open>-32768\<close>, the sample \<open>0\<close> gives \<open>0\<close>; the
  empty input gives the empty output. Being a function of its argument alone, the
  conversion is pure and deterministic.
\<close>

theorem float32ToPCM16_clamps_and_scales:
  "length (float32ToPCM16 xs) = length xs
   \<and> float32ToPCM16 [] = []
   \<and> (\<forall>i<length xs.
        sint (float32ToPCM16 xs ! i) = truncTowardZero (scaleSample (clampSample (xs ! i)))
        \<and> - 32768 \<le> sint (float32ToPCM16 xs ! i) \<and> sint (float32ToPCM16 xs ! i) \<le> 32767
        \<and> (1 \<le> xs ! i \<longrightarrow> sint (float32ToPCM16 xs ! i) = 32767)
        \<and> (xs ! i \<le> - 1 \<longrightarrow> sint (float32ToPCM16 xs ! i) = - 32768)
        \<and> (xs ! i = 0 \<longrightarrow> sint (float32ToPCM16 xs ! i) = 0))
   \<and> scaleSample (clampSample 1) = 32767
   \<and> scaleSample (clampSample (- 1)) = - 32768
   \<and> scaleSample (clampSample 0) = 0"
proof -
  have "sint (sampleToInt16 s) = 32767" if "1 \<le> s" for s
    using that by (simp add: sampleToInt16_high)
  moreover have "sint (sampleToInt16 s) = - 32768" if "s \<le> - 1" for s
    using that by (simp add: sampleToInt16_low)
  moreover have "sint (sampleToInt16 0) = 0"
    by (simp add: sampleToInt16_zero)
  moreover have "- 32768 \<le> sint (sampleToInt16 s) \<and> sint (sampleToInt16 s) \<le> 32767" for s
    using truncate_scale_range [of s] by (simp add: sint_sampleToInt16)
  moreover have "scaleSample (clampSample 1) = 32767" "scaleSample (clampSample (- 1)) = - 32768"
    "scaleSample (clampSample 0) = 0"
    by (simp_all add: scaleSample_def clampSample_def)
  ultimately show ?thesis
    by (simp add: float32ToPCM16_def sint_sampleToInt16)
qed

theorem float32ToPCM16_clamps_and_scales_witness:
  "length (float32ToPCM16 [3, - 7, 0]) = 3
   \<and> sint (float32ToPCM16 [3, - 7, 0] ! 0) = 32767
   \<and> sint (float32ToPCM16 [3, - 7, 0] ! 1) = - 32768
   \<and> sint (float32ToPCM16 [3, - 7, 0] ! 2) = 0"
  using float32ToPCM16_clamps_and_scales [of "[3, - 7, 0]"]
  by (simp add: All_less_Suc eval_nat_numeral truncTowardZero_def scaleSample_def
      clampSample_def)


section \<open>Properties of the text encoding\<close>

lemma sextet_table:
  "list_all (\<lambda>n. decodeSextet (encodeSextet n) = Some n \<and> encodeSextet n \<noteq> CHR ''='') [0..<64]"
  by code_simp

lemma decode_encode_sextet: "n < 64 \<Longrightarrow> decodeSextet (encodeSextet n) = Some n"
  using sextet_table by (simp add: list_all_iff)

lemma encodeSextet_not_pad: "n < 64 \<Longrightarrow> encodeSextet n \<noteq> CHR ''=''"
  using sextet_table by (simp add: list_all_iff)

lemma unat_u8_less: "unat (a :: u8) < 256"
  using unsigned_less [of a] by simp

lemma hi_nibble: "(b::nat) < 256 \<Longrightarrow> b div 16 < 16"
  and hi_pair: "(b::nat) < 256 \<Longrightarrow> b div 64 < 4"
  and hi_sextet: "(b::nat) < 256 \<Longrightarrow> b div 4 < 64"
  by (simp_all add: div_less_iff_less_mult)

lemma sextet_bounds:
  "sextet1 a < 64" "sextet2 a b < 64" "sextet3 b c < 64" "sextet4 c < 64"
proof -
  have "unat a mod 4 < 4" "unat b mod 16 < 16" by simp_all
  with hi_nibble [OF unat_u8_less [of b]] hi_pair [OF unat_u8_less [of c]]
    hi_sextet [OF unat_u8_less [of a]]
  show "sextet1 a < 64" "sextet2 a b < 64" "sextet3 b c < 64" "sextet4 c < 64"
    by (simp_all add: sextet1_def sextet2_def sextet3_def sextet4_def)
qed

lemma byte1_sextets: "byte1 (sextet1 a) (sextet2 a b) = a"
proof -
  have "unat a div 4 * 4 + (unat a mod 4 * 16 + unat b div 16) div 16 = unat a"
    using hi_nibble [OF unat_u8_less [of b]] by simp
  then show ?thesis
    unfolding byte1_def sextet1_def sextet2_def by (simp only: of_nat_unat ucast_id)
qed

lemma byte2_sextets: "byte2 (sextet2 a b) (sextet3 b c) = b"
proof -
  have "(unat a mod 4 * 16 + unat b div 16) mod 16 * 16
        + (unat b mod 16 * 4 + unat c div 64) div 4 = unat b"
    using hi_nibble [OF unat_u8_less [of b]] hi_pair [OF unat_u8_less [of c]] by simp
  then show ?thesis
    unfolding byte2_def sextet2_def sextet3_def by (simp only: of_nat_unat ucast_id)
qed

lemma byte3_sextets: "byte3 (sextet3 b c) (sextet4 c) = c"
proof -
  have "(unat b mod 16 * 4 + unat c div 64) mod 4 * 64 + unat c mod 64 = unat c"
    using hi_pair [OF unat_u8_less [of c]] by simp
  then show ?thesis
    unfolding byte3_def sextet3_def sextet4_def by (simp only: of_nat_unat ucast_id)
qed

text \<open>The vectors of the test-suite: \<^verbatim>\<open>Hello World\<close>, the empty text and \<^verbatim>\<open>QQ==\<close>.\<close>

lemma base64_test_vectors:
  "arrayBufferToBase64 [72, 101, 108, 108, 111, 32, 87, 111, 114, 108, 100] = ''SGVsbG8gV29ybGQ=''"
  "arrayBufferToBase64 [] = ''''"
  "base64ToUint8Array '''' = Some []"
  "base64ToUint8Array ''QQ=='' = Some [65]"
  by code_simp+

text \<open>
  Claim C4. Decoding the text encoding of a byte sequence returns that byte sequence:
  \<^verbatim>\<open>base64ToUint8Array (arrayBufferToBase64 b) = b\<close> for every \<open>b\<close>, the empty one included.
\<close>

theorem base64_roundtrip: "base64ToUint8Array (arrayBufferToBase64 b) = Some b"
proof (induction b rule: arrayBufferToBase64.induct)
  case 1
  show ?case by simp
next
  case (2 a)
  show ?case
    by (simp add: decode_encode_sextet encodeSextet_not_pad sextet_bounds byte1_sextets)
next
  case (3 a b)
  show ?case
    by (simp add: decode_encode_sextet encodeSextet_not_pad sextet_bounds byte1_sextets
        byte2_sextets)
next
  case (4 a b c rest)
  then show ?case
    by (simp add: decode_encode_sextet encodeSextet_not_pad sextet_bounds byte1_sextets
        byte2_sextets byte3_sextets)
qed


section \<open>Lifecycle: connect, capture, disconnect\<close>

lemma sentFrames_append: "sentFrames (es @ es') = sentFrames es @ sentFrames es'"
  by (induction es rule: sentFrames.induct) simp_all


lemma filter_removeAll: "filter P (removeAll b xs) = filter (\<lambda>x. x \<noteq> b \<and> P x) xs"
  by (induction xs) auto

lemma scheduleBuffer_eq:
  "scheduleBuffer ctx d now s =
     s\<lparr>fresh := fresh s + 1,
       nextStartTimeRef := max (nextStartTimeRef s) now + d,
       scheduledSourcesRef := scheduledSourcesRef s
         @ [\<lparr>src_id = fresh s, src_start = max (nextStartTimeRef s) now, src_duration = d\<rparr>],
       playing := playing s
         @ [\<lparr>src_id = fresh s, src_start = max (nextStartTimeRef s) now, src_duration = d\<rparr>],
       effects := effects s
         @ [CreateBufferSource (fresh s) ctx, ConnectDestination (fresh s),
            BufferStart (fresh s) (max (nextStartTimeRef s) now)]\<rparr>"
  by (simp add: scheduleBuffer_def Let_def max_def)

lemma connect_denied_eq:
  "apiKeyPresent env \<Longrightarrow> \<not> micGranted env \<Longrightarrow>
   connect env s =
     s\<lparr>inputContextRef := Some (fresh s), outputContextRef := Some (fresh s + 1),
       ctxOpen := ctxOpen s @ [fresh s, fresh s + 1],
       fresh := fresh s + 2,
       logs := take 5 (''Connection failed'' # logs s),
       effects := effects s @ [NewAudioContext (fresh s) 16000, NewAudioContext (fresh s + 1) 24000,
                               GetUserMediaRejected, ConsoleError]\<rparr>"
  by (simp add: connect_def connectFailed_def addLog_def emit_def Let_def)

lemma connect_no_key_eq:
  "\<not> apiKeyPresent env \<Longrightarrow> connect env s = s\<lparr>effects := effects s @ [Alert ''API Key missing'']\<rparr>"
  by (simp add: connect_def emit_def)

lemma connect_ok_eq:
  "apiKeyPresent env \<Longrightarrow> micGranted env \<Longrightarrow>
   connect env s =
     s\<lparr>inputContextRef := Some (fresh s), outputContextRef := Some (fresh s + 1),
       streamRef := Some (fresh s + 2),
       sessionRef := Some \<lparr>sess_id = fresh s + 3, sess_stream = fresh s + 2,
                            sess_isMuted = isMuted s\<rparr>,
       ctxOpen := ctxOpen s @ [fresh s, fresh s + 1],
       micLive := micLive s @ [fresh s + 2],
       sessPending := sessPending s @ [fresh s + 3],
       fresh := fresh s + 4,
       logs := take 5 (''Connecting to Live API...'' # logs s),
       effects := effects s @ [NewAudioContext (fresh s) 16000, NewAudioContext (fresh s + 1) 24000,
                               GetUserMedia (fresh s + 2), LiveConnect (fresh s + 3)]\<rparr>"
  by (simp add: connect_def addLog_def Let_def)

lemma connecting_app_eq:
  "connecting_app =
     \<lparr>isConnected = False, isMuted = False, logs = [''Connecting to Live API...''],
      inputContextRef = Some 0, outputContextRef = Some 1, streamRef = Some 2,
      processorRef = None, sourceRef = None,
      nextStartTimeRef = 0, scheduledSourcesRef = [], sessionRef = Some firstSession,
      fresh = 4, micLive = [2], ctxOpen = [0, 1], sessPending = [3], sessOpen = [],
      closeQueued = [], capturing = [], playing = [], decoding = [],
      effects = [NewAudioContext 0 16000, NewAudioContext 1 24000, GetUserMedia 2,
                 LiveConnect 3]\<rparr>"
  by (simp add: connecting_app_def okEnv_def firstSession_def connect_def initial_app_def
      addLog_def Let_def)

lemma connected_app_eq:
  "connected_app =
     \<lparr>isConnected = True, isMuted = False,
      logs = [''Session Open'', ''Connecting to Live API...''],
      inputContextRef = Some 0, outputContextRef = Some 1, streamRef = Some 2,
      processorRef = Some \<lparr>proc_id = 5, proc_isMuted = False, proc_session = 3\<rparr>,
      sourceRef = Some 4,
      nextStartTimeRef = 0, scheduledSourcesRef = [], sessionRef = Some firstSession,
      fresh = 6, micLive = [2], ctxOpen = [0, 1], sessPending = [], sessOpen = [3],
      closeQueued = [],
      capturing = [\<lparr>proc_id = 5, proc_isMuted = False, proc_session = 3\<rparr>],
      playing = [], decoding = [],
      effects = [NewAudioContext 0 16000, NewAudioContext 1 24000, GetUserMedia 2,
                 LiveConnect 3, CreateMediaStreamSource 4 0 2, CreateScriptProcessor 5 0,
                 NodeConnect 4 5, ConnectDestination 5]\<rparr>"
  by (simp add: connected_app_def connecting_app_eq firstSession_def onopen_def addLog_def
      sessionResolved_def Let_def)

text \<open>
  Claim C5. The capture callback is to check the mute flag before each frame, so that
  three frames captured while muted send nothing. The callback tests the \<^verbatim>\<open>isMuted\<close>
  constant its closure was created with, which is the value at the time of \<^verbatim>\<open>connect\<close>
  and is \<open>False\<close> there; pressing the mute button changes the state but not what the
  callback sees. Evaluated on the first session: after the button is pressed the state
  is connected and muted, nothing has been sent yet, and three captured frames of 4096
  silent samples each are all sent.
\<close>

theorem muted_frames_reach_transport:
  "let muted = toggleMute connected_app;
       p = the (processorRef muted);
       frame = replicate 4096 0;
       after = onaudioprocess p frame (onaudioprocess p frame (onaudioprocess p frame muted))
   in isConnected muted \<and> isMuted muted \<and> isMuted after
      \<and> sentFrames (effects muted) = []
      \<and> length (sentFrames (effects after)) = 3"
  by (simp add: connected_app_eq toggleMute_def onaudioprocess_def emit_def
      sentFrames_append Let_def)

text \<open>The same frames as the microphone delivers them, to the processor that is wired up.\<close>

lemma muted_frames_captured:
  "length (sentFrames (effects
     (captureFrame frame (captureFrame frame (captureFrame frame (toggleMute connected_app))))))
   = 3"
  by (simp add: connected_app_eq toggleMute_def captureFrame_def onaudioprocess_def emit_def
      sentFrames_append Let_def)

lemma whenSet_stopTracks:
  "whenSet r stopTracks s =
     s\<lparr>micLive := (case r of None \<Rightarrow> id | Some stream \<Rightarrow> removeAll stream) (micLive s),
       effects := effects s @ (case r of None \<Rightarrow> [] | Some stream \<Rightarrow> [TrackStop stream])\<rparr>"
  by (cases r) (simp_all add: whenSet_def stopTracks_def)

lemma whenSet_disconnectNode:
  "whenSet r disconnectNode s =
     s\<lparr>effects := effects s @ (case r of None \<Rightarrow> [] | Some node \<Rightarrow> [NodeDisconnect node])\<rparr>"
  by (cases r) (simp_all add: whenSet_def disconnectNode_def emit_def)

lemma whenSet_disconnectProcessor:
  "whenSet r disconnectProcessor s =
     s\<lparr>capturing := (case r of None \<Rightarrow> id | Some p \<Rightarrow> removeAll p) (capturing s),
       effects := effects s
         @ (case r of None \<Rightarrow> [] | Some p \<Rightarrow> [NodeDisconnect (proc_id p)])\<rparr>"
  by (cases r) (simp_all add: whenSet_def disconnectProcessor_def disconnectNode_def emit_def)

lemma whenSet_closeContext:
  "whenSet r closeContext s =
     s\<lparr>ctxOpen := (case r of None \<Rightarrow> id | Some ctx \<Rightarrow> removeAll ctx) (ctxOpen s),
       effects := effects s @ (case r of None \<Rightarrow> [] | Some ctx \<Rightarrow> [ContextClose ctx])\<rparr>"
  by (cases r) (simp_all add: whenSet_def closeContext_def)

lemma whenSet_thenClose:
  "whenSet r thenClose s =
     s\<lparr>closeQueued := closeQueued s
         @ (case r of None \<Rightarrow> [] | Some session \<Rightarrow> [sess_id session])\<rparr>"
  by (cases r) (simp_all add: whenSet_def thenClose_def)

lemma disconnect_eq:
  "disconnect s =
     s\<lparr>micLive := (case streamRef s of None \<Rightarrow> id | Some stream \<Rightarrow> removeAll stream) (micLive s),
       capturing := (case processorRef s of None \<Rightarrow> id | Some p \<Rightarrow> removeAll p) (capturing s),
       ctxOpen := (case outputContextRef s of None \<Rightarrow> id | Some ctx \<Rightarrow> removeAll ctx)
                    ((case inputContextRef s of None \<Rightarrow> id | Some ctx \<Rightarrow> removeAll ctx)
                       (ctxOpen s)),
       closeQueued := closeQueued s
         @ (case sessionRef s of None \<Rightarrow> [] | Some session \<Rightarrow> [sess_id session]),
       effects := effects s
         @ (case streamRef s of None \<Rightarrow> [] | Some stream \<Rightarrow> [TrackStop stream])
         @ (case sourceRef s of None \<Rightarrow> [] | Some node \<Rightarrow> [NodeDisconnect node])
         @ (case processorRef s of None \<Rightarrow> [] | Some p \<Rightarrow> [NodeDisconnect (proc_id p)])
         @ (case inputContextRef s of None \<Rightarrow> [] | Some ctx \<Rightarrow> [ContextClose ctx])
         @ (case outputContextRef s of None \<Rightarrow> [] | Some ctx \<Rightarrow> [ContextClose ctx]),
       isConnected := False, isMuted := False, logs := []\<rparr>"
  by (simp add: disconnect_def Let_def whenSet_stopTracks whenSet_disconnectNode
      whenSet_disconnectProcessor whenSet_closeContext whenSet_thenClose)

lemma disconnect_state:
  "isConnected (disconnect s) = False" "isMuted (disconnect s) = False"
  "logs (disconnect s) = []"
  by (simp_all add: disconnect_eq)

lemma disconnect_refs:
  "inputContextRef (disconnect s) = inputContextRef s"
  "outputContextRef (disconnect s) = outputContextRef s"
  "streamRef (disconnect s) = streamRef s"
  "processorRef (disconnect s) = processorRef s"
  "sourceRef (disconnect s) = sourceRef s"
  "sessionRef (disconnect s) = sessionRef s"
  "nextStartTimeRef (disconnect s) = nextStartTimeRef s"
  "scheduledSourcesRef (disconnect s) = scheduledSourcesRef s"
  by (simp_all add: disconnect_eq)

lemma disconnect_world:
  "fresh (disconnect s) = fresh s"
  "playing (disconnect s) = playing s"
  "decoding (disconnect s) = decoding s"
  "sessPending (disconnect s) = sessPending s"
  "sessOpen (disconnect s) = sessOpen s"
  "micLive (disconnect s) =
     (case streamRef s of None \<Rightarrow> id | Some stream \<Rightarrow> removeAll stream) (micLive s)"
  "capturing (disconnect s) =
     (case processorRef s of None \<Rightarrow> id | Some p \<Rightarrow> removeAll p) (capturing s)"
  "ctxOpen (disconnect s) =
     (case outputContextRef s of None \<Rightarrow> id | Some ctx \<Rightarrow> removeAll ctx)
       ((case inputContextRef s of None \<Rightarrow> id | Some ctx \<Rightarrow> removeAll ctx) (ctxOpen s))"
  "closeQueued (disconnect s) =
     closeQueued s @ (case sessionRef s of None \<Rightarrow> [] | Some session \<Rightarrow> [sess_id session])"
  by (simp_all add: disconnect_eq)

lemma disconnect_effects:
  "effects (disconnect s) = effects s
     @ (case streamRef s of None \<Rightarrow> [] | Some stream \<Rightarrow> [TrackStop stream])
     @ (case sourceRef s of None \<Rightarrow> [] | Some node \<Rightarrow> [NodeDisconnect node])
     @ (case processorRef s of None \<Rightarrow> [] | Some p \<Rightarrow> [NodeDisconnect (proc_id p)])
     @ (case inputContextRef s of None \<Rightarrow> [] | Some ctx \<Rightarrow> [ContextClose ctx])
     @ (case outputContextRef s of None \<Rightarrow> [] | Some ctx \<Rightarrow> [ContextClose ctx])"
  by (simp add: disconnect_eq)

lemma disconnect_more: "app.more (disconnect s) = app.more s"
  by (simp add: disconnect_eq)

lemma released_stays_released:
  "(case r of None \<Rightarrow> id | Some x \<Rightarrow> removeAll x)
     ((case r of None \<Rightarrow> id | Some x \<Rightarrow> removeAll x) xs)
   = (case r of None \<Rightarrow> id | Some x \<Rightarrow> removeAll x) xs"
  "(case r' of None \<Rightarrow> id | Some x \<Rightarrow> removeAll x)
     ((case r of None \<Rightarrow> id | Some x \<Rightarrow> removeAll x)
        ((case r' of None \<Rightarrow> id | Some x \<Rightarrow> removeAll x)
           ((case r of None \<Rightarrow> id | Some x \<Rightarrow> removeAll x) xs)))
   = (case r' of None \<Rightarrow> id | Some x \<Rightarrow> removeAll x)
       ((case r of None \<Rightarrow> id | Some x \<Rightarrow> removeAll x) xs)"
  by (cases r; cases r'; simp add: removeAll_id)+

lemma disconnect_twice:
  "disconnect (disconnect s) =
     (disconnect s)\<lparr>effects := effects (disconnect s)
        @ (case streamRef s of None \<Rightarrow> [] | Some stream \<Rightarrow> [TrackStop stream])
        @ (case sourceRef s of None \<Rightarrow> [] | Some node \<Rightarrow> [NodeDisconnect node])
        @ (case processorRef s of None \<Rightarrow> [] | Some p \<Rightarrow> [NodeDisconnect (proc_id p)])
        @ (case inputContextRef s of None \<Rightarrow> [] | Some ctx \<Rightarrow> [ContextClose ctx])
        @ (case outputContextRef s of None \<Rightarrow> [] | Some ctx \<Rightarrow> [ContextClose ctx]),
       closeQueued := closeQueued (disconnect s)
        @ (case sessionRef s of None \<Rightarrow> [] | Some session \<Rightarrow> [sess_id session])\<rparr>"
  by (rule app.equality)
    (simp_all add: disconnect_state disconnect_refs disconnect_world disconnect_more
      released_stays_released disconnect_effects [of "disconnect s"])

lemma fold_closeSession:
  "fold closeSession ids s =
     s\<lparr>sessOpen := filter (\<lambda>i. i \<notin> set ids) (sessOpen s),
       effects := effects s @ map SessionClose ids\<rparr>"
proof (induction ids arbitrary: s)
  case Nil
  show ?case by simp
next
  case (Cons i ids)
  have "fold closeSession (i # ids) s = fold closeSession ids (closeSession i s)"
    by simp
  also have "\<dots> = (closeSession i s)\<lparr>
      sessOpen := filter (\<lambda>i. i \<notin> set ids) (sessOpen (closeSession i s)),
      effects := effects (closeSession i s) @ map SessionClose ids\<rparr>"
    by (rule Cons.IH)
  also have "\<dots> = s\<lparr>sessOpen := filter (\<lambda>j. j \<notin> set (i # ids)) (sessOpen s),
       effects := effects s @ map SessionClose (i # ids)\<rparr>"
    by (simp add: closeSession_def filter_removeAll)
  finally show ?case .
qed

lemma microtasks_eq:
  "microtasks s =
     s\<lparr>sessOpen := filter (\<lambda>i. i \<notin> set (filter (\<lambda>i. i \<notin> set (sessPending s)) (closeQueued s)))
                      (sessOpen s),
       effects := effects s
         @ map SessionClose (filter (\<lambda>i. i \<notin> set (sessPending s)) (closeQueued s)),
       closeQueued := filter (\<lambda>i. i \<in> set (sessPending s)) (closeQueued s)\<rparr>"
  by (simp add: microtasks_def Let_def fold_closeSession)

lemma microtasks_idle: "closeQueued s = [] \<Longrightarrow> microtasks s = s"
  by (simp add: microtasks_eq)

text \<open>
  Claim C6, as amended. \<^verbatim>\<open>disconnect\<close> has no failing branch and may be called in any
  state: it leaves \<^verbatim>\<open>isConnected\<close> false (the Disconnected state). What the refs point
  to is released in the order of the source: Capture (tracks stopped, source node and
  processor node disconnected, input context closed), then Playback (output context
  closed). The Transport comes last and later: the call only leaves \<^verbatim>\<open>close\<close> as a
  callback on the session promise, which runs once the call has returned when the promise
  has resolved, and stays waiting while the promise is pending. A second call in a row
  issues the same calls again, leaves a second callback and changes nothing else, so
  that both \<^verbatim>\<open>close\<close> calls follow both rounds of release calls. A call on the page as
  loaded changes nothing at all.
\<close>

theorem disconnect_releases_in_source_order:
  "isConnected (disconnect s) = False
   \<and> (\<forall>stream. streamRef s = Some stream \<longrightarrow> stream \<notin> set (micLive (disconnect s)))
   \<and> (\<forall>ctx. inputContextRef s = Some ctx \<or> outputContextRef s = Some ctx
          \<longrightarrow> ctx \<notin> set (ctxOpen (disconnect s)))
   \<and> (\<forall>p. processorRef s = Some p \<longrightarrow> p \<notin> set (capturing (disconnect s)))
   \<and> (let calls =
          (case streamRef s of None \<Rightarrow> [] | Some stream \<Rightarrow> [TrackStop stream])
          @ (case sourceRef s of None \<Rightarrow> [] | Some node \<Rightarrow> [NodeDisconnect node])
          @ (case processorRef s of None \<Rightarrow> [] | Some p \<Rightarrow> [NodeDisconnect (proc_id p)])
          @ (case inputContextRef s of None \<Rightarrow> [] | Some ctx \<Rightarrow> [ContextClose ctx])
          @ (case outputContextRef s of None \<Rightarrow> [] | Some ctx \<Rightarrow> [ContextClose ctx]);
           queued = (case sessionRef s of None \<Rightarrow> [] | Some session \<Rightarrow> [sess_id session])
       in effects (disconnect s) = effects s @ calls
          \<and> closeQueued (disconnect s) = closeQueued s @ queued
          \<and> disconnect (disconnect s)
              = (disconnect s)\<lparr>effects := effects (disconnect s) @ calls,
                               closeQueued := closeQueued (disconnect s) @ queued\<rparr>
          \<and> (closeQueued s = [] \<and> set queued \<inter> set (sessPending s) = {} \<longrightarrow>
                effects (microtasks (disconnect s)) = effects s @ calls @ map SessionClose queued
                \<and> effects (microtasks (disconnect (disconnect s)))
                    = effects s @ calls @ calls @ map SessionClose (queued @ queued)
                \<and> set queued \<inter> set (sessOpen (microtasks (disconnect s))) = {})
          \<and> (closeQueued s = [] \<and> set queued \<subseteq> set (sessPending s) \<longrightarrow>
                microtasks (disconnect s) = disconnect s))
   \<and> disconnect initial_app = initial_app
   \<and> microtasks (disconnect initial_app) = initial_app"
proof -
  define calls where "calls =
          (case streamRef s of None \<Rightarrow> [] | Some stream \<Rightarrow> [TrackStop stream])
          @ (case sourceRef s of None \<Rightarrow> [] | Some node \<Rightarrow> [NodeDisconnect node])
          @ (case processorRef s of None \<Rightarrow> [] | Some p \<Rightarrow> [NodeDisconnect (proc_id p)])
          @ (case inputContextRef s of None \<Rightarrow> [] | Some ctx \<Rightarrow> [ContextClose ctx])
          @ (case outputContextRef s of None \<Rightarrow> [] | Some ctx \<Rightarrow> [ContextClose ctx])"
  define queued where
    "queued = (case sessionRef s of None \<Rightarrow> [] | Some session \<Rightarrow> [sess_id session])"
  have 1: "isConnected (disconnect s) = False"
    by (rule disconnect_state)
  have 2: "stream \<notin> set (micLive (disconnect s))" if "streamRef s = Some stream" for stream
    using that by (simp add: disconnect_world)
  have 3: "ctx \<notin> set (ctxOpen (disconnect s))"
    if "inputContextRef s = Some ctx \<or> outputContextRef s = Some ctx" for ctx
    using that by (auto simp: disconnect_world split: option.split)
  have 4: "p \<notin> set (capturing (disconnect s))" if "processorRef s = Some p" for p
    using that by (simp add: disconnect_world)
  have e: "effects (disconnect s) = effects s @ calls"
    by (simp add: disconnect_effects calls_def)
  have q: "closeQueued (disconnect s) = closeQueued s @ queued"
    by (simp add: disconnect_world queued_def)
  have t: "disconnect (disconnect s)
      = (disconnect s)\<lparr>effects := effects (disconnect s) @ calls,
                       closeQueued := closeQueued (disconnect s) @ queued\<rparr>"
    using disconnect_twice [of s] by (simp add: calls_def queued_def)
  have r: "effects (microtasks (disconnect s)) = effects s @ calls @ map SessionClose queued
      \<and> effects (microtasks (disconnect (disconnect s)))
          = effects s @ calls @ calls @ map SessionClose (queued @ queued)
      \<and> set queued \<inter> set (sessOpen (microtasks (disconnect s))) = {}"
    if "closeQueued s = [] \<and> set queued \<inter> set (sessPending s) = {}"
  proof -
    from that have f: "filter (\<lambda>i. i \<notin> set (sessPending s)) queued = queued"
      by (auto simp: filter_id_conv)
    have "effects (microtasks (disconnect s)) = effects s @ calls @ map SessionClose queued"
      using that by (simp add: microtasks_eq [of "disconnect s"] e q disconnect_world(4,5) f)
    moreover have "effects (microtasks (disconnect (disconnect s)))
          = effects s @ calls @ calls @ map SessionClose (queued @ queued)"
    proof -
      have "closeQueued (disconnect (disconnect s)) = queued @ queued"
        "sessPending (disconnect (disconnect s)) = sessPending s"
        "effects (disconnect (disconnect s)) = effects s @ calls @ calls"
        using that by (simp_all add: t e q disconnect_world(4))
      then show ?thesis
        by (simp add: microtasks_eq [of "disconnect (disconnect s)"] f)
    qed
    moreover have "set queued \<inter> set (sessOpen (microtasks (disconnect s))) = {}"
      using that by (auto simp: microtasks_eq [of "disconnect s"] q disconnect_world(4,5) f)
    ultimately show ?thesis by blast
  qed
  have w: "microtasks (disconnect s) = disconnect s"
    if "closeQueued s = [] \<and> set queued \<subseteq> set (sessPending s)"
  proof -
    from that have f: "filter (\<lambda>i. i \<notin> set (sessPending s)) queued = []"
      "filter (\<lambda>i. i \<in> set (sessPending s)) queued = queued"
      by (auto simp: filter_empty_conv filter_id_conv)
    have "closeQueued (disconnect s) = queued"
      using that q by simp
    then show ?thesis
      by (simp add: microtasks_eq [of "disconnect s"] disconnect_world(4,5) f)
  qed
  have i: "disconnect initial_app = initial_app"
    by (simp add: disconnect_eq initial_app_def)
  have "closeQueued initial_app = []"
    by (simp add: initial_app_def)
  then have m: "microtasks (disconnect initial_app) = initial_app"
    by (simp only: i microtasks_idle)
  show ?thesis
    unfolding Let_def calls_def [symmetric] queued_def [symmetric]
    using 1 2 3 4 e q t r w i m by blast
qed


theorem disconnect_releases_in_source_order_witness:
  "isConnected (disconnect connected_app) = False
   \<and> 2 \<notin> set (micLive (disconnect connected_app))
   \<and> effects (disconnect connected_app) = effects connected_app @
        [TrackStop 2, NodeDisconnect 4, NodeDisconnect 5, ContextClose 0, ContextClose 1]
   \<and> closeQueued (disconnect connected_app) = [3]
   \<and> effects (microtasks (disconnect connected_app)) = effects connected_app @
        [TrackStop 2, NodeDisconnect 4, NodeDisconnect 5, ContextClose 0, ContextClose 1,
         SessionClose 3]
   \<and> effects (microtasks (disconnect (disconnect connected_app))) = effects connected_app @
        [TrackStop 2, NodeDisconnect 4, NodeDisconnect 5, ContextClose 0, ContextClose 1,
         TrackStop 2, NodeDisconnect 4, NodeDisconnect 5, ContextClose 0, ContextClose 1,
         SessionClose 3, SessionClose 3]
   \<and> 3 \<notin> set (sessOpen (microtasks (disconnect connected_app)))"
proof -
  have refs: "streamRef connected_app = Some 2" "sourceRef connected_app = Some 4"
    "processorRef connected_app = Some \<lparr>proc_id = 5, proc_isMuted = False, proc_session = 3\<rparr>"
    "inputContextRef connected_app = Some 0" "outputContextRef connected_app = Some 1"
    "sessionRef connected_app = Some firstSession" "closeQueued connected_app = []"
    "sessPending connected_app = []"
    by (simp_all add: connected_app_eq)
  note all = disconnect_releases_in_source_order [of connected_app, unfolded Let_def]
  note calls = all [THEN conjunct2, THEN conjunct2, THEN conjunct2, THEN conjunct2,
      THEN conjunct1]
  have "isConnected (disconnect connected_app) = False"
    by (rule all [THEN conjunct1])
  moreover have "2 \<notin> set (micLive (disconnect connected_app))"
    using all [THEN conjunct2, THEN conjunct1] by (simp add: refs)
  moreover have "effects (disconnect connected_app) = effects connected_app @
        [TrackStop 2, NodeDisconnect 4, NodeDisconnect 5, ContextClose 0, ContextClose 1]"
    using calls [THEN conjunct1] by (simp add: refs)
  moreover have "closeQueued (disconnect connected_app) = [3]"
    using calls [THEN conjunct2, THEN conjunct1] by (simp add: refs firstSession_def)
  moreover have "effects (microtasks (disconnect connected_app)) = effects connected_app @
        [TrackStop 2, NodeDisconnect 4, NodeDisconnect 5, ContextClose 0, ContextClose 1,
         SessionClose 3]
     \<and> effects (microtasks (disconnect (disconnect connected_app))) = effects connected_app @
        [TrackStop 2, NodeDisconnect 4, NodeDisconnect 5, ContextClose 0, ContextClose 1,
         TrackStop 2, NodeDisconnect 4, NodeDisconnect 5, ContextClose 0, ContextClose 1,
         SessionClose 3, SessionClose 3]
     \<and> 3 \<notin> set (sessOpen (microtasks (disconnect connected_app)))"
    using calls [THEN conjunct2, THEN conjunct2, THEN conjunct2, THEN conjunct1]
    by (simp add: refs firstSession_def)
  ultimately show ?thesis
    by blast
qed

text \<open>The visitor who pressed the connect button twice.\<close>

lemma twice_connecting_app_eq:
  "connect okEnv connecting_app =
     \<lparr>isConnected = False, isMuted = False,
      logs = [''Connecting to Live API...'', ''Connecting to Live API...''],
      inputContextRef = Some 4, outputContextRef = Some 5, streamRef = Some 6,
      processorRef = None, sourceRef = None,
      nextStartTimeRef = 0, scheduledSourcesRef = [], sessionRef = Some secondSession,
      fresh = 8, micLive = [2, 6], ctxOpen = [0, 1, 4, 5], sessPending = [3, 7],
      sessOpen = [], closeQueued = [], capturing = [], playing = [], decoding = [],
      effects = [NewAudioContext 0 16000, NewAudioContext 1 24000, GetUserMedia 2,
                 LiveConnect 3,
                 NewAudioContext 4 16000, NewAudioContext 5 24000, GetUserMedia 6,
                 LiveConnect 7]\<rparr>"
  by (simp add: connecting_app_eq okEnv_def secondSession_def connect_def addLog_def Let_def)

lemma overlapping_app_eq:
  "overlapping_app =
     \<lparr>isConnected = True, isMuted = False,
      logs = [''Session Open'', ''Connecting to Live API...'', ''Connecting to Live API...''],
      inputContextRef = Some 4, outputContextRef = Some 5, streamRef = Some 6,
      processorRef = Some \<lparr>proc_id = 9, proc_isMuted = False, proc_session = 7\<rparr>,
      sourceRef = Some 8,
      nextStartTimeRef = 1,
      scheduledSourcesRef = [\<lparr>src_id = 10, src_start = 0, src_duration = 1\<rparr>],
      sessionRef = Some secondSession,
      fresh = 11, micLive = [2, 6], ctxOpen = [0, 1, 4, 5], sessPending = [],
      sessOpen = [3, 7], closeQueued = [],
      capturing = [\<lparr>proc_id = 9, proc_isMuted = False, proc_session = 7\<rparr>],
      playing = [\<lparr>src_id = 10, src_start = 0, src_duration = 1\<rparr>], decoding = [],
      effects = [NewAudioContext 0 16000, NewAudioContext 1 24000, GetUserMedia 2,
                 LiveConnect 3,
                 NewAudioContext 4 16000, NewAudioContext 5 24000, GetUserMedia 6,
                 LiveConnect 7, CreateMediaStreamSource 8 4 6, CreateScriptProcessor 9 4,
                 NodeConnect 8 9, ConnectDestination 9,
                 CreateBufferSource 10 5, ConnectDestination 10, BufferStart 10 0]\<rparr>"
  by (simp add: overlapping_app_def twice_connecting_app_eq secondSession_def
      sessionResolved_def onopen_def addLog_def scheduleBuffer_eq Let_def)

text \<open>
  Claim C6 as stated fails on that state in each of its parts but the first. The output
  context, number 5, is closed inside the call, and the session, number 7, only after
  the call has returned: Playback comes before Transport. The stream, the two contexts and
  the session of the first \<^verbatim>\<open>connect\<close> (numbers 2, 0, 1 and 3) are still held afterwards,
  because the second \<^verbatim>\<open>connect\<close> overwrote the refs that pointed to them. The set of
  scheduled sources and the cursor are as they were.
\<close>

theorem disconnect_order_and_what_it_leaves:
  "outputContextRef overlapping_app = Some 5
   \<and> sessionRef overlapping_app = Some \<lparr>sess_id = 7, sess_stream = 6, sess_isMuted = False\<rparr>
   \<and> effects (disconnect overlapping_app) = effects overlapping_app @
        [TrackStop 6, NodeDisconnect 8, NodeDisconnect 9, ContextClose 4, ContextClose 5]
   \<and> sessOpen (disconnect overlapping_app) = [3, 7]
   \<and> effects (microtasks (disconnect overlapping_app)) = effects overlapping_app @
        [TrackStop 6, NodeDisconnect 8, NodeDisconnect 9, ContextClose 4, ContextClose 5,
         SessionClose 7]
   \<and> micLive (microtasks (disconnect overlapping_app)) = [2]
   \<and> ctxOpen (microtasks (disconnect overlapping_app)) = [0, 1]
   \<and> sessOpen (microtasks (disconnect overlapping_app)) = [3]
   \<and> scheduledSourcesRef (microtasks (disconnect overlapping_app))
        = [\<lparr>src_id = 10, src_start = 0, src_duration = 1\<rparr>]
   \<and> nextStartTimeRef (microtasks (disconnect overlapping_app)) = 1"
  by (simp add: microtasks_eq disconnect_eq overlapping_app_eq secondSession_def)


text \<open>
  Claim C7. Every failure path is to leave the microphone and the output device released.
  The paths through \<^verbatim>\<open>onerror\<close> and \<^verbatim>\<open>onclose\<close> call \<^verbatim>\<open>disconnect\<close> and do so; the
  \<^verbatim>\<open>catch\<close> block of \<^verbatim>\<open>connect\<close> only logs. Evaluated on the page as loaded: when
  \<^verbatim>\<open>getUserMedia\<close> rejects, the output context created two lines earlier stays open,
  the state is not connected and the log reads "Connection failed".
\<close>

theorem failed_connect_leaves_devices_held:
  "let denied = connect \<lparr>apiKeyPresent = True, micGranted = False\<rparr> initial_app
   in \<not> isConnected denied \<and> logs denied = [''Connection failed'']
      \<and> outputContextRef denied = Some 1 \<and> ctxOpen denied = [0, 1]"
  by (simp add: connect_denied_eq initial_app_def Let_def)

text \<open>The sibling paths: a transport error or a close on the first session.\<close>

lemma onerror_onclose_release:
  "micLive (onerror connected_app) = []" "ctxOpen (onerror connected_app) = []"
  "isConnected (onerror connected_app) = False"
  "micLive (onclose connected_app) = []" "ctxOpen (onclose connected_app) = []"
  "isConnected (onclose connected_app) = False"
  by (simp_all add: onerror_def onclose_def disconnect_state disconnect_world addLog_def
      emit_def connected_app_eq)
















text \<open>When the session does open, capture starts and a frame is sent.\<close>

lemma opened_session_captures:
  "length (sentFrames (effects (session_run [Opened firstSession, Frame frame] connecting_app)))
   = 1"
  by (simp add: session_run_def microtasks_eq connecting_app_eq firstSession_def onopen_def
      addLog_def captureFrame_def onaudioprocess_def emit_def sentFrames_append Let_def)

text \<open>
  Claim C10. After \<^verbatim>\<open>disconnect\<close> the mute flag is off and the log is empty, whatever
  they were. A \<^verbatim>\<open>connect\<close> that follows and succeeds starts from the empty log (its own
  line is the only one), is not muted, and the session it creates captures with the
  mute test off: the processor its \<^verbatim>\<open>onopen\<close> installs sends every frame.
\<close>

theorem disconnect_resets_mute_and_log:
  "isMuted (disconnect s) = False \<and> logs (disconnect s) = []
   \<and> (apiKeyPresent env \<and> micGranted env \<longrightarrow>
        (let s1 = connect env (disconnect s) in
           logs s1 = [''Connecting to Live API...'']
           \<and> isMuted s1 = False
           \<and> (\<exists>session. sessionRef s1 = Some session \<and> \<not> sess_isMuted session
                \<and> (\<exists>p. processorRef (onopen session s1) = Some p \<and> \<not> proc_isMuted p
                      \<and> (\<forall>frame s2. sentFrames (effects (onaudioprocess p frame s2))
                            = sentFrames (effects s2)
                              @ [arrayBufferToBase64 (bufferOf (float32ToPCM16 frame))])))))"
proof (intro conjI impI)
  show "isMuted (disconnect s) = False" "logs (disconnect s) = []"
    by (simp_all add: disconnect_state)
  assume env: "apiKeyPresent env \<and> micGranted env"
  define s1 where "s1 = connect env (disconnect s)"
  define session where "session = \<lparr>sess_id = fresh s + 3, sess_stream = fresh s + 2,
    sess_isMuted = False\<rparr>"
  define p where "p = \<lparr>proc_id = fresh s + 5, proc_isMuted = False, proc_session = fresh s + 3\<rparr>"
  have s1: "s1 = (disconnect s)\<lparr>inputContextRef := Some (fresh s),
       outputContextRef := Some (fresh s + 1), streamRef := Some (fresh s + 2),
       sessionRef := Some session,
       ctxOpen := ctxOpen (disconnect s) @ [fresh s, fresh s + 1],
       micLive := micLive (disconnect s) @ [fresh s + 2],
       sessPending := sessPending s @ [fresh s + 3],
       fresh := fresh s + 4,
       logs := [''Connecting to Live API...''],
       effects := effects (disconnect s) @ [NewAudioContext (fresh s) 16000,
          NewAudioContext (fresh s + 1) 24000, GetUserMedia (fresh s + 2),
          LiveConnect (fresh s + 3)]\<rparr>"
    using env by (simp add: s1_def session_def connect_ok_eq disconnect_state disconnect_world(1,4))
  have "logs s1 = [''Connecting to Live API...'']" "isMuted s1 = False"
    "sessionRef s1 = Some session"
    by (simp_all add: s1 disconnect_state)
  moreover have "\<not> sess_isMuted session"
    by (simp add: session_def)
  moreover have "processorRef (onopen session s1) = Some p"
    by (simp add: s1 onopen_def addLog_def Let_def p_def session_def disconnect_refs
        disconnect_world(1))
  moreover have "\<not> proc_isMuted p"
    by (simp add: p_def)
  moreover have "sentFrames (effects (onaudioprocess p frame s2))
      = sentFrames (effects s2) @ [arrayBufferToBase64 (bufferOf (float32ToPCM16 frame))]"
    for frame s2
    by (simp add: onaudioprocess_def p_def emit_def Let_def sentFrames_append)
  ultimately show "let s1 = connect env (disconnect s) in
           logs s1 = [''Connecting to Live API...'']
           \<and> isMuted s1 = False
           \<and> (\<exists>session. sessionRef s1 = Some session \<and> \<not> sess_isMuted session
                \<and> (\<exists>p. processorRef (onopen session s1) = Some p \<and> \<not> proc_isMuted p
                      \<and> (\<forall>frame s2. sentFrames (effects (onaudioprocess p frame s2))
                            = sentFrames (effects s2)
                              @ [arrayBufferToBase64 (bufferOf (float32ToPCM16 frame))])))"
    unfolding Let_def s1_def [symmetric] by blast
qed

theorem disconnect_resets_mute_and_log_witness:
  "isMuted (disconnect (toggleMute connected_app)) = False
   \<and> logs (disconnect (toggleMute connected_app)) = []
   \<and> logs (connect okEnv (disconnect (toggleMute connected_app))) = [''Connecting to Live API...'']
   \<and> isMuted (connect okEnv (disconnect (toggleMute connected_app))) = False"
  using disconnect_resets_mute_and_log [of "toggleMute connected_app" okEnv]
  by (simp add: okEnv_def Let_def)


section \<open>Playback: scheduling and interruption\<close>

lemma play_Nil: "play ctx [] s = s"
  by (simp add: play_def)

lemma play_snoc: "play ctx (chunks @ [(now, d)]) s = scheduleBuffer ctx d now (play ctx chunks s)"
  by (simp add: play_def)

lemma play_sources:
  "\<exists>bs. scheduledSourcesRef (play ctx chunks s) = scheduledSourcesRef s @ bs
        \<and> length bs = length chunks
        \<and> nextStartTimeRef (play ctx chunks s)
            = (if chunks = [] then nextStartTimeRef s
               else src_start (last bs) + snd (last chunks))
        \<and> (\<forall>k<length chunks.
              src_start (bs ! k)
              = max (if k = 0 then nextStartTimeRef s
                     else src_start (bs ! (k - 1)) + snd (chunks ! (k - 1)))
                    (fst (chunks ! k)))"
proof (induction chunks rule: rev_induct)
  case Nil
  show ?case by (simp add: play_Nil)
next
  case (snoc c chunks)
  obtain now d where c: "c = (now, d)" by (cases c)
  from snoc obtain bs where
    bs: "scheduledSourcesRef (play ctx chunks s) = scheduledSourcesRef s @ bs"
    and len: "length bs = length chunks"
    and cur: "nextStartTimeRef (play ctx chunks s)
            = (if chunks = [] then nextStartTimeRef s
               else src_start (last bs) + snd (last chunks))"
    and rec: "\<forall>k<length chunks.
              src_start (bs ! k)
              = max (if k = 0 then nextStartTimeRef s
                     else src_start (bs ! (k - 1)) + snd (chunks ! (k - 1)))
                    (fst (chunks ! k))"
    by blast
  define t where "t = max (nextStartTimeRef (play ctx chunks s)) now"
  define b where "b = \<lparr>src_id = fresh (play ctx chunks s), src_start = t, src_duration = d\<rparr>"
  have 1: "scheduledSourcesRef (play ctx (chunks @ [c]) s) = scheduledSourcesRef s @ (bs @ [b])"
    by (simp add: c play_snoc scheduleBuffer_eq bs b_def t_def)
  have 2: "length (bs @ [b]) = length (chunks @ [c])"
    by (simp add: len)
  have 3: "nextStartTimeRef (play ctx (chunks @ [c]) s)
        = (if chunks @ [c] = [] then nextStartTimeRef s
           else src_start (last (bs @ [b])) + snd (last (chunks @ [c])))"
    by (simp add: c play_snoc scheduleBuffer_eq b_def t_def)
  have 4: "src_start ((bs @ [b]) ! k)
              = max (if k = 0 then nextStartTimeRef s
                     else src_start ((bs @ [b]) ! (k - 1)) + snd ((chunks @ [c]) ! (k - 1)))
                    (fst ((chunks @ [c]) ! k))"
    if "k < length (chunks @ [c])" for k
  proof (cases "k < length chunks")
    case True
    then have k1: "k - 1 < length chunks" by simp
    from rec True have "src_start (bs ! k)
              = max (if k = 0 then nextStartTimeRef s
                     else src_start (bs ! (k - 1)) + snd (chunks ! (k - 1)))
                    (fst (chunks ! k))"
      by blast
    with True k1 len show ?thesis
      by (simp add: nth_append)
  next
    case False
    with that have k: "k = length chunks" by simp
    show ?thesis
    proof (cases "chunks = []")
      case True
      with k len cur show ?thesis
        by (simp add: b_def t_def c)
    next
      case False
      then have "bs \<noteq> []" using len by auto
      with False k len cur show ?thesis
        by (simp add: b_def t_def c nth_append last_conv_nth)
    qed
  qed
  from 1 2 3 4 show ?case
    by blast
qed

text \<open>
  Claim C1, as amended. Chunks handed to the scheduler one after the other, with no
  interruption in between, get as many sources as there are chunks. Every start time is
  at least the clock reading at which the chunk was scheduled; the first is the larger
  of the cursor and the clock; each next one is the larger of the end of the previous
  buffer and the clock, so buffers never overlap. When no later chunk finds the clock
  past the end of the previous buffer, the start times are contiguous: the first start
  plus the sum of the durations before the chunk, that is \<open>t0\<close>, \<open>t0 + d1\<close>,
  \<open>t0 + d1 + d2\<close>.
\<close>

theorem playback_starts_follow_cursor_and_clock:
  fixes chunks :: "(real \<times> real) list"
  shows
  "let starts = map src_start (drop (length (scheduledSourcesRef s))
                                 (scheduledSourcesRef (play ctx chunks s)))
   in length starts = length chunks
      \<and> (\<forall>k<length chunks. fst (chunks ! k) \<le> starts ! k)
      \<and> (chunks \<noteq> [] \<longrightarrow> starts ! 0 = max (nextStartTimeRef s) (fst (chunks ! 0)))
      \<and> (\<forall>k. Suc k < length chunks \<longrightarrow>
            starts ! Suc k = max (starts ! k + snd (chunks ! k)) (fst (chunks ! Suc k))
            \<and> starts ! k + snd (chunks ! k) \<le> starts ! Suc k)
      \<and> ((\<forall>k. Suc k < length chunks \<longrightarrow> fst (chunks ! Suc k) \<le> starts ! k + snd (chunks ! k))
           \<longrightarrow> (\<forall>k<length chunks. starts ! k = starts ! 0 + sum_list (map snd (take k chunks))))"
proof -
  obtain bs where
    bs: "scheduledSourcesRef (play ctx chunks s) = scheduledSourcesRef s @ bs"
    and len: "length bs = length chunks"
    and rec: "\<forall>k<length chunks.
              src_start (bs ! k)
              = max (if k = 0 then nextStartTimeRef s
                     else src_start (bs ! (k - 1)) + snd (chunks ! (k - 1)))
                    (fst (chunks ! k))"
    using play_sources [of ctx chunks s] by blast
  define starts where "starts = map src_start bs"
  have starts: "map src_start (drop (length (scheduledSourcesRef s))
                                 (scheduledSourcesRef (play ctx chunks s))) = starts"
    by (simp add: bs starts_def)
  have l: "length starts = length chunks"
    by (simp add: starts_def len)
  have nth: "starts ! k = src_start (bs ! k)" if "k < length chunks" for k
    using that len by (simp add: starts_def)
  have clock: "fst (chunks ! k) \<le> starts ! k" if "k < length chunks" for k
    using that rec [rule_format, of k] by (simp add: nth)
  have first: "starts ! 0 = max (nextStartTimeRef s) (fst (chunks ! 0))" if "chunks \<noteq> []"
    using that rec [rule_format, of 0] by (simp add: nth)
  have step: "starts ! Suc k = max (starts ! k + snd (chunks ! k)) (fst (chunks ! Suc k))"
    if "Suc k < length chunks" for k
    using that rec [rule_format, of "Suc k"] by (simp add: nth)
  have sums: "starts ! k = starts ! 0 + sum_list (map snd (take k chunks))"
    if ns: "\<forall>k. Suc k < length chunks \<longrightarrow> fst (chunks ! Suc k) \<le> starts ! k + snd (chunks ! k)"
      and "k < length chunks" for k
    using \<open>k < length chunks\<close>
  proof (induction k)
    case 0
    show ?case by simp
  next
    case (Suc k)
    then have k: "k < length chunks" by simp
    have "fst (chunks ! Suc k) \<le> starts ! k + snd (chunks ! k)"
      using ns Suc.prems by blast
    then have "starts ! Suc k = starts ! k + snd (chunks ! k)"
      using step [OF Suc.prems] by (simp add: max_def)
    with Suc.IH [OF k] k show ?case
      by (simp add: take_Suc_conv_app_nth)
  qed
  have over: "starts ! k + snd (chunks ! k) \<le> starts ! Suc k" if "Suc k < length chunks" for k
    using step [OF that] by simp
  show ?thesis
    unfolding Let_def starts
    using l clock first step over sums by blast
qed


lemma audio_text_decodes: "base64ToUint8Array ''AAAA'' = Some [0, 0, 0]"
  by code_simp

lemma onmessage_audio_chunk:
  assumes "outputContextRef s = Some ctx" "msg_audio msg = Some a" "a \<noteq> []"
    "base64ToUint8Array a = Some bytes" "\<not> msg_interrupted msg"
  shows "onmessage msg (Some d) now s = scheduleBuffer ctx d now s"
  using assms by (simp add: onmessage_def onmessage_resume_def handleInterrupted_def)

theorem playback_starts_follow_cursor_and_clock_witness:
  "map src_start (drop (length (scheduledSourcesRef connected_app))
      (scheduledSourcesRef (play 1 [(0, 1), (1 / 2, 2), (3, 1)] connected_app))) = [0, 1, 3]"
  using playback_starts_follow_cursor_and_clock [of connected_app 1 "[(0, 1), (1 / 2, 2), (3, 1)]"]
  by (simp add: play_def scheduleBuffer_eq connected_app_eq)

lemma onmessage_audioChunk:
  "outputContextRef s = Some ctx \<Longrightarrow> onmessage audioChunk (Some d) now s = scheduleBuffer ctx d now s"
  by (rule onmessage_audio_chunk [where a = "''AAAA''"])
    (simp_all add: audioChunk_def audio_text_decodes del: base64ToUint8Array.simps)

lemma deliver_is_play:
  "outputContextRef s = Some ctx \<Longrightarrow>
   fold (\<lambda>(now, d). onmessage audioChunk (Some d) now) chunks s = play ctx chunks s"
proof (induction chunks arbitrary: s)
  case Nil
  show ?case by (simp add: play_def)
next
  case (Cons c chunks)
  obtain now d where c: "c = (now, d)" by (cases c)
  have "outputContextRef (scheduleBuffer ctx d now s) = Some ctx"
    using Cons.prems by (simp add: scheduleBuffer_eq)
  from Cons.IH [OF this] Cons.prems show ?case
    by (simp add: c onmessage_audioChunk play_def)
qed

text \<open>
  Claim C1 as stated asks for contiguous start times for every sequence of chunks. Three
  chunks of one second each, scheduled at clock readings \<open>0\<close>, \<open>5\<close> and \<open>6\<close>, start at
  \<open>0\<close>, \<open>5\<close> and \<open>6\<close>: the second does not start where the first ends.
\<close>

theorem stalled_chunk_is_not_contiguous:
  "let starts = map src_start (scheduledSourcesRef
         (onmessage audioChunk (Some 1) 6
           (onmessage audioChunk (Some 1) 5
             (onmessage audioChunk (Some 1) 0 connected_app))))
   in starts = [0, 5, 6] \<and> starts ! 1 \<noteq> starts ! 0 + 1
      \<and> starts = map src_start (scheduledSourcesRef (play 1 [(0, 1), (5, 1), (6, 1)] connected_app))"
proof -
  have "outputContextRef connected_app = Some 1"
    by (simp add: connected_app_eq)
  from deliver_is_play [OF this, of "[(0, 1), (5, 1), (6, 1)]"]
  have "onmessage audioChunk (Some 1) 6
           (onmessage audioChunk (Some 1) 5
             (onmessage audioChunk (Some 1) 0 connected_app))
        = play 1 [(0, 1), (5, 1), (6, 1)] connected_app"
    by simp
  then show ?thesis
    by (simp add: play_def scheduleBuffer_eq connected_app_eq)
qed

lemma tryStop_eq:
  "tryStop b s =
     (if b \<in> set (playing s)
      then s\<lparr>playing := removeAll b (playing s), effects := effects s @ [BufferStop (src_id b)]\<rparr>
      else s)"
  by (simp add: tryStop_def stopSource_def)

lemma fold_tryStop:
  "playing (fold tryStop bs s) = filter (\<lambda>b. b \<notin> set bs) (playing s)
   \<and> (\<exists>stops. effects (fold tryStop bs s) = effects s @ stops
          \<and> (\<forall>e\<in>set stops. \<exists>b\<in>set bs. e = BufferStop (src_id b)))"
proof (induction bs arbitrary: s)
  case Nil
  show ?case by simp
next
  case (Cons b bs)
  define s1 where "s1 = tryStop b s"
  have p1: "playing s1 = removeAll b (playing s)"
    by (simp add: s1_def tryStop_eq removeAll_id)
  have "\<exists>stops. effects s1 = effects s @ stops \<and> (\<forall>e\<in>set stops. e = BufferStop (src_id b))"
    by (simp add: s1_def tryStop_eq)
  then obtain stops1 where
    e1: "effects s1 = effects s @ stops1" and st1: "\<forall>e\<in>set stops1. e = BufferStop (src_id b)"
    by blast
  from Cons.IH [of s1] obtain stops where
    p: "playing (fold tryStop bs s1) = filter (\<lambda>b. b \<notin> set bs) (playing s1)"
    and e: "effects (fold tryStop bs s1) = effects s1 @ stops"
    and st: "\<forall>e\<in>set stops. \<exists>b\<in>set bs. e = BufferStop (src_id b)"
    by blast
  have "playing (fold tryStop (b # bs) s) = filter (\<lambda>x. x \<notin> set (b # bs)) (playing s)"
    by (simp add: s1_def [symmetric] p p1 filter_removeAll)
  moreover have "effects (fold tryStop (b # bs) s) = effects s @ (stops1 @ stops)"
    by (simp add: s1_def [symmetric] e e1)
  moreover have "\<forall>e\<in>set (stops1 @ stops). \<exists>x\<in>set (b # bs). e = BufferStop (src_id x)"
    using st st1 by auto
  ultimately show ?case
    by blast
qed

lemma fold_tryStop_keeps:
  "fresh (fold tryStop bs s) = fresh s"
  "decoding (fold tryStop bs s) = decoding s"
  "outputContextRef (fold tryStop bs s) = outputContextRef s"
  "scheduledSourcesRef (fold tryStop bs s) = scheduledSourcesRef s"
  "nextStartTimeRef (fold tryStop bs s) = nextStartTimeRef s"
  by (induction bs arbitrary: s; simp add: tryStop_eq)+

lemma handleInterrupted_not: "\<not> msg_interrupted msg \<Longrightarrow> handleInterrupted msg s = s"
  by (simp add: handleInterrupted_def)

lemma handleInterrupted_flush:
  assumes "msg_interrupted msg"
  shows "scheduledSourcesRef (handleInterrupted msg s) = []"
    and "nextStartTimeRef (handleInterrupted msg s) = 0"
    and "fresh (handleInterrupted msg s) = fresh s"
    and "decoding (handleInterrupted msg s) = decoding s"
    and "outputContextRef (handleInterrupted msg s) = outputContextRef s"
    and "playing (handleInterrupted msg s)
          = filter (\<lambda>b. b \<notin> set (scheduledSourcesRef s)) (playing s)"
    and "\<exists>stops. effects (handleInterrupted msg s) = effects s @ stops
          \<and> (\<forall>e\<in>set stops. \<exists>b\<in>set (scheduledSourcesRef s). e = BufferStop (src_id b))"
  using assms fold_tryStop [of "scheduledSourcesRef s" "addLog ''Interrupted'' s"]
  by (simp_all add: handleInterrupted_def Let_def fold_tryStop_keeps addLog_def)

text \<open>
  Claim C2. In every state, a message that carries the interruption flag and no audio
  empties the set of scheduled sources and resets the cursor to \<open>0\<close>; every source that
  was in the set is stopped (none of them is started afterwards; the error of stopping
  one that had already ended is swallowed); the next buffer scheduled after it, at any
  clock reading, starts at the larger of \<open>0\<close> and the clock, so not before the clock.
\<close>

theorem interrupted_flushes_playback:
  assumes "msg_audio msg = None" and "msg_interrupted msg"
  shows "let s' = onmessage msg decoded currentTime s in
     scheduledSourcesRef s' = [] \<and> nextStartTimeRef s' = 0
     \<and> (\<forall>b\<in>set (scheduledSourcesRef s). b \<notin> set (playing s'))
     \<and> (\<forall>ctx d now.
           scheduledSourcesRef (scheduleBuffer ctx d now s')
             = [\<lparr>src_id = fresh s', src_start = max 0 now, src_duration = d\<rparr>]
           \<and> now \<le> src_start (last (scheduledSourcesRef (scheduleBuffer ctx d now s'))))"
proof -
  have s': "onmessage msg decoded currentTime s = handleInterrupted msg s"
    using assms(1) by (simp add: onmessage_def)
  show ?thesis
    unfolding Let_def s'
    by (simp add: handleInterrupted_flush [OF assms(2)] scheduleBuffer_eq)
qed


lemma onlyAdds_refl: "onlyAdds s s"
  by (simp add: onlyAdds_def)

lemma onlyAdds_trans:
  assumes "onlyAdds s s'" "onlyAdds s' s''"
  shows "onlyAdds s s''"
proof -
  have "take (length (effects s)) (effects s'') = effects s"
  proof -
    have "length (effects s) \<le> length (effects s')"
      using assms(1) by (metis onlyAdds_def length_take min.cobounded1 min.commute)
    then have "take (length (effects s)) (effects s'')
        = take (length (effects s)) (take (length (effects s')) (effects s''))"
      by (simp add: min_def)
    also have "\<dots> = effects s"
      using assms by (simp add: onlyAdds_def)
    finally show ?thesis .
  qed
  moreover have "fresh s \<le> fresh s''"
    using assms by (simp add: onlyAdds_def)
  moreover have "b \<in> set (playing s) \<or> fresh s \<le> src_id b" if "b \<in> set (playing s'')" for b
    using assms that unfolding onlyAdds_def by (meson order_trans)
  moreover have "b \<in> set (scheduledSourcesRef s) \<or> fresh s \<le> src_id b"
    if "b \<in> set (scheduledSourcesRef s'')" for b
    using assms that unfolding onlyAdds_def by (meson order_trans)
  ultimately show ?thesis
    unfolding onlyAdds_def by blast
qed

lemma onlyAdds_handleInterrupted: "onlyAdds s (handleInterrupted msg s)"
proof (cases "msg_interrupted msg")
  case False
  then show ?thesis by (simp add: handleInterrupted_not onlyAdds_refl)
next
  case True
  from handleInterrupted_flush(7) [OF True, of s] obtain stops where
    "effects (handleInterrupted msg s) = effects s @ stops" by blast
  then show ?thesis
    by (simp add: onlyAdds_def handleInterrupted_flush [OF True])
qed

lemma onlyAdds_scheduleBuffer: "onlyAdds s (scheduleBuffer ctx d now s)"
  by (auto simp: onlyAdds_def scheduleBuffer_eq)

lemma onlyAdds_decoding: "onlyAdds s (s\<lparr>decoding := ds\<rparr>)"
  by (simp add: onlyAdds_def)

lemma onlyAdds_onmessage_resume: "onlyAdds s (onmessage_resume msg ctx decoded now s)"
  by (cases decoded)
    (auto simp: onmessage_resume_def onlyAdds_refl
      intro: onlyAdds_trans [OF onlyAdds_scheduleBuffer onlyAdds_handleInterrupted])

lemma onlyAdds_playback_step: "onlyAdds s (playback_step e s)"
proof (cases e)
  case (Message msg)
  then show ?thesis
    by (auto simp: onmessage_begin_def onlyAdds_refl onlyAdds_handleInterrupted onlyAdds_decoding
        split: option.split)
next
  case (DecodeDone k decoded now)
  show ?thesis
  proof (cases "k < length (decoding s)")
    case False
    with DecodeDone show ?thesis by (simp add: onlyAdds_refl)
  next
    case True
    obtain msg ctx where mc: "decoding s ! k = (msg, ctx)" by (cases "decoding s ! k")
    have "onlyAdds s (onmessage_resume msg ctx decoded now
        (s\<lparr>decoding := take k (decoding s) @ drop (Suc k) (decoding s)\<rparr>))"
      by (rule onlyAdds_trans [OF onlyAdds_decoding onlyAdds_onmessage_resume])
    with DecodeDone True mc show ?thesis
      by simp
  qed
next
  case (SourceEnded b)
  then show ?thesis
    by (auto simp: onlyAdds_def)
qed

lemma onlyAdds_run: "onlyAdds s (run events s)"
proof (induction events arbitrary: s)
  case Nil
  show ?case by (simp add: run_def onlyAdds_refl)
next
  case (Cons e events)
  have "run (e # events) s = run events (playback_step e s)"
    by (simp add: run_def)
  with onlyAdds_trans [OF onlyAdds_playback_step Cons.IH] show ?case
    by simp
qed

lemma playback_invariant_handleInterrupted:
  assumes "\<forall>b\<in>set (scheduledSourcesRef s). src_id b < fresh s"
    and "set (playing s) \<subseteq> set (scheduledSourcesRef s)"
  shows "(\<forall>b\<in>set (scheduledSourcesRef (handleInterrupted msg s)).
            src_id b < fresh (handleInterrupted msg s))
    \<and> set (playing (handleInterrupted msg s)) \<subseteq> set (scheduledSourcesRef (handleInterrupted msg s))"
proof (cases "msg_interrupted msg")
  case False
  with assms show ?thesis by (simp add: handleInterrupted_not)
next
  case True
  have "filter (\<lambda>b. b \<notin> set (scheduledSourcesRef s)) (playing s) = []"
    using assms(2) by (auto simp: filter_empty_conv)
  then show ?thesis
    by (simp add: handleInterrupted_flush [OF True])
qed

lemma playback_invariant_scheduleBuffer:
  assumes "\<forall>b\<in>set (scheduledSourcesRef s). src_id b < fresh s"
    and "set (playing s) \<subseteq> set (scheduledSourcesRef s)"
  shows "(\<forall>b\<in>set (scheduledSourcesRef (scheduleBuffer ctx d now s)).
            src_id b < fresh (scheduleBuffer ctx d now s))
    \<and> set (playing (scheduleBuffer ctx d now s))
        \<subseteq> set (scheduledSourcesRef (scheduleBuffer ctx d now s))"
  using assms by (auto simp: scheduleBuffer_eq less_Suc_eq)

lemma playback_invariant_step:
  assumes "\<forall>b\<in>set (scheduledSourcesRef s). src_id b < fresh s"
    and "set (playing s) \<subseteq> set (scheduledSourcesRef s)"
  shows "(\<forall>b\<in>set (scheduledSourcesRef (playback_step e s)). src_id b < fresh (playback_step e s))
    \<and> set (playing (playback_step e s)) \<subseteq> set (scheduledSourcesRef (playback_step e s))"
proof (cases e)
  case (Message msg)
  show ?thesis
    using assms playback_invariant_handleInterrupted [OF assms, of msg]
    by (auto simp: Message onmessage_begin_def split: option.split)
next
  case (DecodeDone k decoded now)
  show ?thesis
  proof (cases "k < length (decoding s)")
    case False
    with DecodeDone assms show ?thesis by simp
  next
    case True
    obtain msg ctx where mc: "decoding s ! k = (msg, ctx)" by (cases "decoding s ! k")
    define s0 where "s0 = s\<lparr>decoding := take k (decoding s) @ drop (Suc k) (decoding s)\<rparr>"
    have s0: "\<forall>b\<in>set (scheduledSourcesRef s0). src_id b < fresh s0"
      "set (playing s0) \<subseteq> set (scheduledSourcesRef s0)"
      using assms by (simp_all add: s0_def)
    have "(\<forall>b\<in>set (scheduledSourcesRef (onmessage_resume msg ctx decoded now s0)).
              src_id b < fresh (onmessage_resume msg ctx decoded now s0))
      \<and> set (playing (onmessage_resume msg ctx decoded now s0))
          \<subseteq> set (scheduledSourcesRef (onmessage_resume msg ctx decoded now s0))"
    proof (cases decoded)
      case None
      with s0 show ?thesis by (simp add: onmessage_resume_def)
    next
      case (Some d)
      note sb = playback_invariant_scheduleBuffer [OF s0, of ctx d now]
      from playback_invariant_handleInterrupted [OF sb [THEN conjunct1] sb [THEN conjunct2], of msg]
      show ?thesis by (simp add: onmessage_resume_def Some)
    qed
    with DecodeDone True mc show ?thesis
      by (simp add: s0_def)
  qed
next
  case (SourceEnded b)
  with assms show ?thesis by auto
qed

text \<open>
  Claim C9. The interruption check of a message that carries the flag runs in one step
  of the event loop. In that step the set is emptied, every source of the set is
  stopped and nothing else is called but \<^verbatim>\<open>stop\<close>; when every started source was in the
  set, none is left started. Handlers that were suspended on decoding stay suspended.
  Whatever the playback side does afterwards is appended after these calls, and no
  source that was in the set is ever started or in the set again: a buffer scheduled
  later, also one whose chunk had arrived before the interruption, is a new source.
\<close>

theorem interruption_precedes_new_buffers:
  assumes "msg_interrupted msg"
    and "\<forall>b\<in>set (scheduledSourcesRef s). src_id b < fresh s"
  shows "let s1 = handleInterrupted msg s in
     (msg_audio msg = None \<longrightarrow> playback_step (Message msg) s = s1)
     \<and> scheduledSourcesRef s1 = []
     \<and> (\<forall>b\<in>set (scheduledSourcesRef s). b \<notin> set (playing s1))
     \<and> (set (playing s) \<subseteq> set (scheduledSourcesRef s) \<longrightarrow> playing s1 = [])
     \<and> decoding s1 = decoding s
     \<and> (\<exists>stops. effects s1 = effects s @ stops
           \<and> (\<forall>e\<in>set stops. \<exists>b\<in>set (scheduledSourcesRef s). e = BufferStop (src_id b)))
     \<and> (\<forall>events.
           (\<exists>later. effects (run events s1) = effects s1 @ later)
           \<and> (\<forall>b\<in>set (scheduledSourcesRef s).
                 b \<notin> set (playing (run events s1))
                 \<and> b \<notin> set (scheduledSourcesRef (run events s1))))"
proof -
  define s1 where "s1 = handleInterrupted msg s"
  have s1: "msg_audio msg = None \<longrightarrow> playback_step (Message msg) s = s1"
    by (simp add: s1_def onmessage_begin_def)
  note flush = handleInterrupted_flush [OF assms(1), of s, folded s1_def]
  have a: "scheduledSourcesRef s1 = []" and c: "decoding s1 = decoding s"
    by (rule flush)+
  have b: "\<forall>b\<in>set (scheduledSourcesRef s). b \<notin> set (playing s1)"
    by (simp add: flush)
  have b': "set (playing s) \<subseteq> set (scheduledSourcesRef s) \<longrightarrow> playing s1 = []"
    by (auto simp: flush filter_empty_conv)
  have d: "\<exists>stops. effects s1 = effects s @ stops
           \<and> (\<forall>e\<in>set stops. \<exists>b\<in>set (scheduledSourcesRef s). e = BufferStop (src_id b))"
    by (rule flush)
  have e: "(\<exists>later. effects (run events s1) = effects s1 @ later)
           \<and> (\<forall>b\<in>set (scheduledSourcesRef s).
                 b \<notin> set (playing (run events s1))
                 \<and> b \<notin> set (scheduledSourcesRef (run events s1)))" for events
  proof -
    note r = onlyAdds_run [of s1 events, unfolded onlyAdds_def]
    from r have "take (length (effects s1)) (effects (run events s1)) = effects s1"
      by blast
    then have "effects (run events s1)
        = effects s1 @ drop (length (effects s1)) (effects (run events s1))"
      by (metis append_take_drop_id)
    then have 1: "\<exists>later. effects (run events s1) = effects s1 @ later" ..
    have 2: "x \<notin> set (playing (run events s1)) \<and> x \<notin> set (scheduledSourcesRef (run events s1))"
      if x: "x \<in> set (scheduledSourcesRef s)" for x
    proof -
      from x assms(2) have "src_id x < fresh s1"
        by (simp add: flush)
      moreover from x b have "x \<notin> set (playing s1)" by blast
      moreover have "x \<notin> set (scheduledSourcesRef s1)" by (simp add: a)
      ultimately show ?thesis
        using r by (metis not_le)
    qed
    from 1 2 show ?thesis by blast
  qed
  show ?thesis
    unfolding Let_def s1_def [symmetric]
    using s1 a b b' c d e by blast
qed

lemma talking_app_eq:
  "talking_app =
     \<lparr>isConnected = True, isMuted = False,
      logs = [''Session Open'', ''Connecting to Live API...''],
      inputContextRef = Some 0, outputContextRef = Some 1, streamRef = Some 2,
      processorRef = Some \<lparr>proc_id = 5, proc_isMuted = False, proc_session = 3\<rparr>,
      sourceRef = Some 4,
      nextStartTimeRef = 3,
      scheduledSourcesRef = [\<lparr>src_id = 6, src_start = 0, src_duration = 1\<rparr>,
                             \<lparr>src_id = 7, src_start = 1, src_duration = 2\<rparr>],
      sessionRef = Some firstSession,
      fresh = 8, micLive = [2], ctxOpen = [0, 1], sessPending = [], sessOpen = [3],
      closeQueued = [],
      capturing = [\<lparr>proc_id = 5, proc_isMuted = False, proc_session = 3\<rparr>],
      playing = [\<lparr>src_id = 6, src_start = 0, src_duration = 1\<rparr>,
                 \<lparr>src_id = 7, src_start = 1, src_duration = 2\<rparr>],
      decoding = [],
      effects = [NewAudioContext 0 16000, NewAudioContext 1 24000, GetUserMedia 2,
                 LiveConnect 3, CreateMediaStreamSource 4 0 2, CreateScriptProcessor 5 0,
                 NodeConnect 4 5, ConnectDestination 5,
                 CreateBufferSource 6 1, ConnectDestination 6, BufferStart 6 0,
                 CreateBufferSource 7 1, ConnectDestination 7, BufferStart 7 1]\<rparr>"
  by (simp add: talking_app_def play_def scheduleBuffer_eq connected_app_eq)

lemma talking_app_fields:
  "fresh talking_app = 8" "outputContextRef talking_app = Some 1"
  "scheduledSourcesRef talking_app = [\<lparr>src_id = 6, src_start = 0, src_duration = 1\<rparr>,
                                     \<lparr>src_id = 7, src_start = 1, src_duration = 2\<rparr>]"
  "decoding talking_app = []"
  by (simp_all add: talking_app_eq)

lemma interrupted_talking_app_eq:
  "handleInterrupted interruption talking_app =
     talking_app\<lparr>logs := [''Interrupted'', ''Session Open'', ''Connecting to Live API...''],
       nextStartTimeRef := 0, scheduledSourcesRef := [], playing := [],
       effects := effects talking_app @ [BufferStop 6, BufferStop 7]\<rparr>"
  by (simp add: talking_app_eq handleInterrupted_def interruption_def addLog_def tryStop_eq
      Let_def)

lemma interruption_fields: "msg_audio interruption = None" "msg_interrupted interruption"
  by (simp_all add: interruption_def)

lemma onmessage_interruption: "onmessage interruption decoded now s = handleInterrupted interruption s"
  by (simp add: onmessage_def interruption_fields)

theorem interrupted_flushes_playback_witness:
  "scheduledSourcesRef (onmessage interruption None 4 talking_app) = []
   \<and> nextStartTimeRef (onmessage interruption None 4 talking_app) = 0
   \<and> \<lparr>src_id = 6, src_start = 0, src_duration = 1\<rparr>
        \<notin> set (playing (onmessage interruption None 4 talking_app))
   \<and> \<lparr>src_id = 7, src_start = 1, src_duration = 2\<rparr>
        \<notin> set (playing (onmessage interruption None 4 talking_app))
   \<and> scheduledSourcesRef (scheduleBuffer 1 1 4 (onmessage interruption None 4 talking_app))
        = [\<lparr>src_id = 8, src_start = 4, src_duration = 1\<rparr>]"
proof -
  note s = talking_app_fields(3)
  have f: "fresh (onmessage interruption None 4 talking_app) = 8"
    by (simp add: onmessage_interruption interrupted_talking_app_eq talking_app_fields)
  show ?thesis
    using interrupted_flushes_playback [of interruption None 4 talking_app]
    by (simp add: interruption_fields Let_def s f)
qed

lemma audioChunk_fields: "msg_audio audioChunk = Some ''AAAA''" "\<not> msg_interrupted audioChunk"
  by (simp_all add: audioChunk_def)

lemma pending_app_eq:
  "onmessage_begin audioChunk talking_app = talking_app\<lparr>decoding := [(audioChunk, 1)]\<rparr>"
  by (simp add: onmessage_begin_def audioChunk_fields audio_text_decodes talking_app_fields
      del: base64ToUint8Array.simps)

lemma interrupted_pending_app_eq:
  "handleInterrupted interruption (talking_app\<lparr>decoding := pending\<rparr>)
     = talking_app\<lparr>logs := [''Interrupted'', ''Session Open'', ''Connecting to Live API...''],
         nextStartTimeRef := 0, scheduledSourcesRef := [], playing := [],
         decoding := pending,
         effects := effects talking_app @ [BufferStop 6, BufferStop 7]\<rparr>"
  by (simp add: interruption_fields talking_app_eq handleInterrupted_def
      addLog_def tryStop_eq Let_def)

lemma onmessage_begin_interruption:
  "onmessage_begin interruption s = handleInterrupted interruption s"
  by (simp add: onmessage_begin_def interruption_fields)

theorem interruption_precedes_new_buffers_witness:
  "scheduledSourcesRef
     (playback_step (Message interruption) (playback_step (Message audioChunk) talking_app)) = []
   \<and> playing
     (playback_step (Message interruption) (playback_step (Message audioChunk) talking_app)) = []
   \<and> decoding
     (playback_step (Message interruption) (playback_step (Message audioChunk) talking_app))
       = [(audioChunk, 1)]
   \<and> playing (run [DecodeDone 0 (Some 1) 5]
       (playback_step (Message interruption) (playback_step (Message audioChunk) talking_app)))
       = [\<lparr>src_id = 8, src_start = 5, src_duration = 1\<rparr>]
   \<and> effects (run [DecodeDone 0 (Some 1) 5]
       (playback_step (Message interruption) (playback_step (Message audioChunk) talking_app)))
       = effects talking_app
         @ [BufferStop 6, BufferStop 7,
            CreateBufferSource 8 1, ConnectDestination 8, BufferStart 8 5]"
proof -
  have ids: "\<forall>b\<in>set (scheduledSourcesRef (playback_step (Message audioChunk) talking_app)).
      src_id b < fresh (playback_step (Message audioChunk) talking_app)"
    by (simp add: pending_app_eq talking_app_fields)
  show ?thesis
    using interruption_precedes_new_buffers [OF interruption_fields(2) ids]
    by (simp add: interruption_fields onmessage_begin_interruption pending_app_eq interrupted_pending_app_eq run_def onmessage_resume_def
        scheduleBuffer_eq handleInterrupted_not audioChunk_fields talking_app_fields Let_def)
qed

end
